theory Spec2Isabelle
  imports Main "HOL-Library.Monad_Syntax"
begin

section \<open>Go strings as byte lists\<close>

text \<open>
  A Go \<open>string\<close> is a sequence of bytes; \<open>len\<close>, indexing and slicing count bytes.
  It is modelled as \<^typ>\<open>string\<close> (a list of 8-bit characters).  The functions of
  package \<open>strings\<close> that the repository calls are written out here, each for the
  arguments the repository passes (separators of one byte).
\<close>

abbreviation NL :: char where "NL \<equiv> CHR 0x0A"
abbreviation BQ :: char where "BQ \<equiv> CHR 0x60"

definition HasPrefix :: "string \<Rightarrow> string \<Rightarrow> bool" where
  "HasPrefix s p = (take (length p) s = p)"

definition HasSuffix :: "string \<Rightarrow> string \<Rightarrow> bool" where
  "HasSuffix s p = (length p \<le> length s \<and> drop (length s - length p) s = p)"

definition TrimPrefix :: "string \<Rightarrow> string \<Rightarrow> string" where
  "TrimPrefix s p = (if HasPrefix s p then drop (length p) s else s)"

definition TrimSuffix :: "string \<Rightarrow> string \<Rightarrow> string" where
  "TrimSuffix s p = (if HasSuffix s p then take (length s - length p) s else s)"

text \<open>\<open>strings.Index\<close>: the byte offset of the first occurrence, or \<open>-1\<close>.\<close>

fun Index :: "string \<Rightarrow> string \<Rightarrow> int" where
  "Index [] sep = (if sep = [] then 0 else - 1)"
| "Index (c # cs) sep =
     (if HasPrefix (c # cs) sep then 0
      else (let r = Index cs sep in if r < 0 then - 1 else r + 1))"

text \<open>\<open>strings.LastIndex\<close>: the byte offset of the last occurrence, or \<open>-1\<close>.\<close>

fun LastIndex :: "string \<Rightarrow> string \<Rightarrow> int" where
  "LastIndex [] sep = (if sep = [] then 0 else - 1)"
| "LastIndex (c # cs) sep =
     (let r = LastIndex cs sep in
      if 0 \<le> r then r + 1 else if HasPrefix (c # cs) sep then 0 else - 1)"

text \<open>\<open>strings.Split(s, sep)\<close> for a separator of one byte; the empty string gives one
  empty piece.\<close>

fun Split :: "string \<Rightarrow> char \<Rightarrow> string list" where
  "Split [] sep = [[]]"
| "Split (c # cs) sep =
     (if c = sep then [] # Split cs sep
      else (case Split cs sep of [] \<Rightarrow> [[c]] | p # ps \<Rightarrow> (c # p) # ps))"

text \<open>\<open>strings.SplitN(s, sep, 2)\<close>: split at the first separator only.\<close>

definition SplitN2 :: "string \<Rightarrow> char \<Rightarrow> string list" where
  "SplitN2 s sep =
     (if sep \<in> set s
      then [takeWhile (\<lambda>c. c \<noteq> sep) s, drop 1 (dropWhile (\<lambda>c. c \<noteq> sep) s)]
      else [s])"

fun Join :: "string list \<Rightarrow> string \<Rightarrow> string" where
  "Join [] sep = []"
| "Join [x] sep = x"
| "Join (x # y # ys) sep = x @ sep @ Join (y # ys) sep"

text \<open>\<open>strings.ReplaceAll(s, "-", "")\<close>.\<close>

definition StripHyphens :: "string \<Rightarrow> string" where
  "StripHyphens s = filter (\<lambda>c. c \<noteq> CHR ''-'') s"

text \<open>
  \<open>strings.TrimSpace\<close> removes leading and trailing white space as defined by Unicode.
  On the bytes of a string these are the six ASCII characters and the UTF-8 encodings of
  U+0085, U+00A0, U+1680, U+2000 to U+200A, U+2028, U+2029, U+202F, U+205F and U+3000.
  No encoding in the list is a prefix or a suffix of another one.
\<close>

definition space_runes :: "string list" where
  "space_runes =
     [[CHR 0x09], [CHR 0x0A], [CHR 0x0B], [CHR 0x0C], [CHR 0x0D], [CHR 0x20],
      [CHR 0xC2, CHR 0x85], [CHR 0xC2, CHR 0xA0], [CHR 0xE1, CHR 0x9A, CHR 0x80],
      [CHR 0xE2, CHR 0x80, CHR 0x80], [CHR 0xE2, CHR 0x80, CHR 0x81],
      [CHR 0xE2, CHR 0x80, CHR 0x82], [CHR 0xE2, CHR 0x80, CHR 0x83],
      [CHR 0xE2, CHR 0x80, CHR 0x84], [CHR 0xE2, CHR 0x80, CHR 0x85],
      [CHR 0xE2, CHR 0x80, CHR 0x86], [CHR 0xE2, CHR 0x80, CHR 0x87],
      [CHR 0xE2, CHR 0x80, CHR 0x88], [CHR 0xE2, CHR 0x80, CHR 0x89],
      [CHR 0xE2, CHR 0x80, CHR 0x8A], [CHR 0xE2, CHR 0x80, CHR 0xA8],
      [CHR 0xE2, CHR 0x80, CHR 0xA9], [CHR 0xE2, CHR 0x80, CHR 0xAF],
      [CHR 0xE2, CHR 0x81, CHR 0x9F], [CHR 0xE3, CHR 0x80, CHR 0x80]]"

definition leading_space :: "string \<Rightarrow> nat" where
  "leading_space s =
     (case find (HasPrefix s) space_runes of None \<Rightarrow> 0 | Some w \<Rightarrow> length w)"

definition trailing_space :: "string \<Rightarrow> nat" where
  "trailing_space s =
     (case find (HasSuffix s) space_runes of None \<Rightarrow> 0 | Some w \<Rightarrow> length w)"

lemma space_runes_nonempty: "w \<in> set space_runes \<Longrightarrow> w \<noteq> []"
  by (auto simp: space_runes_def)

lemma leading_space_le: "leading_space s \<le> length s"
proof (cases "find (HasPrefix s) space_runes")
  case None
  then show ?thesis by (simp add: leading_space_def)
next
  case (Some w)
  then have "HasPrefix s w" by (auto simp: find_Some_iff)
  then have "length w \<le> length s"
    by (metis HasPrefix_def length_take min.cobounded1)
  with Some show ?thesis by (simp add: leading_space_def)
qed

lemma trailing_space_le: "trailing_space s \<le> length s"
proof (cases "find (HasSuffix s) space_runes")
  case None
  then show ?thesis by (simp add: trailing_space_def)
next
  case (Some w)
  then have "HasSuffix s w" by (auto simp: find_Some_iff)
  then have "length w \<le> length s" by (simp add: HasSuffix_def)
  with Some show ?thesis by (simp add: trailing_space_def)
qed

function TrimLeftSpace :: "string \<Rightarrow> string" where
  "TrimLeftSpace s =
     (if leading_space s = 0 then s else TrimLeftSpace (drop (leading_space s) s))"
  by pat_completeness auto
termination
proof (relation "measure length")
  show "wf (measure length)" by simp
next
  fix s :: string
  assume "leading_space s \<noteq> 0"
  moreover have "leading_space s \<le> length s" by (rule leading_space_le)
  ultimately show "(drop (leading_space s) s, s) \<in> measure length" by simp
qed

function TrimRightSpace :: "string \<Rightarrow> string" where
  "TrimRightSpace s =
     (if trailing_space s = 0 then s
      else TrimRightSpace (take (length s - trailing_space s) s))"
  by pat_completeness auto
termination
proof (relation "measure length")
  show "wf (measure length)" by simp
next
  fix s :: string
  assume "trailing_space s \<noteq> 0"
  moreover have "trailing_space s \<le> length s" by (rule trailing_space_le)
  ultimately show "(take (length s - trailing_space s) s, s) \<in> measure length" by simp
qed

declare TrimLeftSpace.simps [simp del] TrimRightSpace.simps [simp del]

definition TrimSpace :: "string \<Rightarrow> string" where
  "TrimSpace s = TrimRightSpace (TrimLeftSpace s)"

text \<open>
  \<open>strings.ToLower\<close>.  On a string of ASCII bytes it maps \<open>A\<close>..\<open>Z\<close> to \<open>a\<close>..\<open>z\<close> and
  leaves every other byte.  On a string with a byte above 0x7F it applies the Unicode
  case tables rune by rune; those tables are not part of the repository, so that case is
  the parameter \<open>ulower\<close> of every function that lower-cases.
\<close>

definition ascii_lower :: "char \<Rightarrow> char" where
  "ascii_lower c =
     (case map_of (zip ''ABCDEFGHIJKLMNOPQRSTUVWXYZ'' ''abcdefghijklmnopqrstuvwxyz'') c of
        Some l \<Rightarrow> l
      | None \<Rightarrow> c)"

definition is_ascii :: "string \<Rightarrow> bool" where
  "is_ascii s = list_all (\<lambda>c. (of_char c :: nat) < 128) s"

definition ToLower :: "(string \<Rightarrow> string) \<Rightarrow> string \<Rightarrow> string" where
  "ToLower ulower s = (if is_ascii s then map ascii_lower s else ulower s)"

text \<open>\<open>fmt.Sprintf("%d", n)\<close> for a counter that starts at 1 and only grows.\<close>

definition digit :: "nat \<Rightarrow> char" where
  "digit d = ''0123456789'' ! d"

function Itoa :: "nat \<Rightarrow> string" where
  "Itoa n = (if n < 10 then [digit n] else Itoa (n div 10) @ [digit (n mod 10)])"
  by pat_completeness auto
termination
  by (relation "measure id") auto

declare Itoa.simps [simp del]

section \<open>The code-block language table (markdown.go)\<close>

definition languageMap :: "(string \<times> string) list" where
  "languageMap =
     [(''plaintext'', ''plain text''), (''plain'', ''plain text''),
      (''text'', ''plain text''), (''txt'', ''plain text''),
      (''js'', ''javascript''), (''ts'', ''typescript''), (''py'', ''python''),
      (''rb'', ''ruby''), (''sh'', ''shell''), (''bash'', ''shell''),
      (''zsh'', ''shell''), (''yml'', ''yaml''), (''dockerfile'', ''docker''),
      (''md'', ''markdown'')]"

definition knownLanguages :: "string list" where
  "knownLanguages =
     [''abap'', ''arduino'', ''assembly'', ''bash'',
      ''c'', ''c#'', ''c++'', ''clojure'', ''coffeescript'',
      ''css'', ''dart'', ''diff'', ''docker'', ''elixir'',
      ''elm'', ''erlang'', ''flow'', ''fortran'', ''f#'',
      ''gherkin'', ''glsl'', ''go'', ''graphql'', ''groovy'',
      ''haskell'', ''html'', ''java'', ''javascript'', ''json'',
      ''julia'', ''kotlin'', ''latex'', ''less'', ''lisp'',
      ''livescript'', ''lua'', ''makefile'', ''markdown'',
      ''markup'', ''matlab'', ''mermaid'', ''nix'',
      ''objective-c'', ''ocaml'', ''pascal'', ''perl'',
      ''php'', ''plain text'', ''powershell'', ''prolog'',
      ''protobuf'', ''python'', ''r'', ''reason'', ''ruby'',
      ''rust'', ''sass'', ''scala'', ''scheme'', ''scss'',
      ''shell'', ''sql'', ''swift'', ''typescript'',
      ''vb.net'', ''verilog'', ''vhdl'', ''visual basic'',
      ''webassembly'', ''xml'', ''yaml'', ''java/c/c++/c#'']"

definition mapLanguageToNotion :: "(string \<Rightarrow> string) \<Rightarrow> string \<Rightarrow> string" where
  "mapLanguageToNotion ulower lang0 =
     (let lang = ToLower ulower (TrimSpace lang0) in
      if lang = [] then ''plain text''
      else (case map_of languageMap lang of
              Some mapped \<Rightarrow> mapped
            | None \<Rightarrow> if lang \<in> set knownLanguages then lang else ''plain text''))"

section \<open>Go values of dynamic type\<close>

text \<open>
  The repository passes blocks around as \<open>map[string]any\<close>.  A type assertion
  \<open>v.(T)\<close> succeeds only when the dynamic type of \<open>v\<close> is exactly \<open>T\<close>, so the
  model keeps the Go type of every container: \<open>map[string]any\<close>, \<open>map[string]string\<close>,
  \<open>map[string]bool\<close>, \<open>[]any\<close>, \<open>[]map[string]any\<close> and \<open>[][]map[string]any\<close> are
  different constructors.  A map literal is an association list in the order of the
  source; every key is written once.  A slice in the model is never the \<open>nil\<close> slice: the
  decoder stores no \<open>nil\<close> slice in a block.  An \<open>int\<close> and a \<open>float64\<close> are different
  constructors too; the program writes one number, the width of a table (an \<open>int\<close>), and
  reads none, so a \<open>float64\<close> is given by the integer it stands for.
\<close>

datatype gval =
    GNil
  | GString string
  | GBool bool
  | GInt int
  | GMap "(string \<times> gval) list"
  | GMapString "(string \<times> string) list"
  | GMapBool "(string \<times> bool) list"
  | GSlice "gval list"
  | GSliceMap "(string \<times> gval) list list"
  | GSliceSliceMap "(string \<times> gval) list list list"
  | GFloat64 int

type_synonym gmap = "(string \<times> gval) list"

text \<open>\<open>m[k]\<close> on a \<open>map[string]any\<close>: the value, or \<open>nil\<close> when the key is absent.\<close>

definition index :: "gmap \<Rightarrow> string \<Rightarrow> gval" where
  "index m k = (case map_of m k of Some v \<Rightarrow> v | None \<Rightarrow> GNil)"

text \<open>Type assertions \<open>v.(T)\<close> in the two-result form: \<open>None\<close> is \<open>ok = false\<close>.\<close>

fun as_map :: "gval \<Rightarrow> gmap option" where
  "as_map (GMap m) = Some m"
| "as_map _ = None"

fun as_slice :: "gval \<Rightarrow> gval list option" where
  "as_slice (GSlice xs) = Some xs"
| "as_slice _ = None"

fun as_slice_map :: "gval \<Rightarrow> gmap list option" where
  "as_slice_map (GSliceMap xs) = Some xs"
| "as_slice_map _ = None"

fun as_string_ok :: "gval \<Rightarrow> string option" where
  "as_string_ok (GString s) = Some s"
| "as_string_ok _ = None"

text \<open>\<open>s, _ := v.(string)\<close> and \<open>b, _ := v.(bool)\<close>: the zero value when the assertion
  fails.\<close>

fun as_string :: "gval \<Rightarrow> string" where
  "as_string (GString s) = s"
| "as_string _ = []"

fun as_bool :: "gval \<Rightarrow> bool" where
  "as_bool (GBool b) = b"
| "as_bool _ = False"

section \<open>The inline decoder (markdown.go, parseInlineMarkdown)\<close>

text \<open>
  Indexing and slicing a Go string out of range panics.  In the inline decoder a panic is
  the value \<open>None\<close>: every \<open>text[i]\<close> is \<open>byte_at\<close>, every \<open>text[a:b]\<close> is \<open>slice\<close>.
  Indices are Go \<open>int\<close>s, modelled as \<^typ>\<open>int\<close> (a string is far shorter than \<open>2^63\<close>).
\<close>

definition len :: "string \<Rightarrow> int" where
  "len s = int (length s)"

definition byte_at :: "string \<Rightarrow> int \<Rightarrow> char option" where
  "byte_at s i = (if 0 \<le> i \<and> i < len s then Some (s ! nat i) else None)"

definition slice :: "string \<Rightarrow> int \<Rightarrow> int \<Rightarrow> string option" where
  "slice s a b =
     (if 0 \<le> a \<and> a \<le> b \<and> b \<le> len s then Some (take (nat (b - a)) (drop (nat a) s))
      else None)"

text \<open>\<open>text[i] == c\<close>, and the short-circuit operators on conditions that may panic.\<close>

definition byte_is :: "string \<Rightarrow> int \<Rightarrow> char \<Rightarrow> bool option" where
  "byte_is s i c = map_option (\<lambda>x. x = c) (byte_at s i)"

definition byte_isnt :: "string \<Rightarrow> int \<Rightarrow> char \<Rightarrow> bool option" where
  "byte_isnt s i c = map_option (\<lambda>x. x \<noteq> c) (byte_at s i)"

definition and_then :: "bool option \<Rightarrow> bool option \<Rightarrow> bool option" where
  "and_then a b = (case a of None \<Rightarrow> None | Some x \<Rightarrow> if x then b else Some False)"

definition or_else :: "bool option \<Rightarrow> bool option \<Rightarrow> bool option" where
  "or_else a b = (case a of None \<Rightarrow> None | Some x \<Rightarrow> if x then Some True else b)"

function findClosing :: "string \<Rightarrow> int \<Rightarrow> string \<Rightarrow> int option" where
  "findClosing text i marker =
     (if i \<le> len text - len marker
      then (case slice text i (i + len marker) of
              None \<Rightarrow> None
            | Some w \<Rightarrow> if w = marker then Some i else findClosing text (i + 1) marker)
      else Some (- 1))"
  by pat_completeness auto
termination
  by (relation "measure (\<lambda>(text, i, marker). nat (len text - len marker - i + 1))") auto

declare findClosing.simps [simp del]

function findClosingSingle :: "string \<Rightarrow> int \<Rightarrow> char \<Rightarrow> int option" where
  "findClosingSingle text i marker =
     (if i < len text
      then (case byte_at text i of
              None \<Rightarrow> None
            | Some c \<Rightarrow> if c = marker then Some i else findClosingSingle text (i + 1) marker)
      else Some (- 1))"
  by pat_completeness auto
termination
  by (relation "measure (\<lambda>(text, i, marker). nat (len text - i))") auto

declare findClosingSingle.simps [simp del]

text \<open>The spans the decoder builds, as the map literals of the source.\<close>

definition plain_span :: "string \<Rightarrow> gmap" where
  "plain_span c =
     [(''type'', GString ''text''), (''text'', GMapString [(''content'', c)])]"

definition annotated_span :: "string \<Rightarrow> string \<Rightarrow> gmap" where
  "annotated_span a c =
     [(''type'', GString ''text''), (''text'', GMapString [(''content'', c)]),
      (''annotations'', GMapBool [(a, True)])]"

definition link_span :: "string \<Rightarrow> string \<Rightarrow> gmap" where
  "link_span linkText linkURL =
     [(''type'', GString ''text''),
      (''text'', GMap [(''content'', GString linkText),
                       (''link'', GMapString [(''url'', linkURL)])])]"

definition mention_span :: "string \<Rightarrow> gmap" where
  "mention_span pageID =
     [(''type'', GString ''mention''),
      (''mention'', GMap [(''type'', GString ''page''),
                          (''page'', GMap [(''id'', GString pageID)])])]"

text \<open>
  One attempt of the loop body at position \<open>i\<close>: \<open>None\<close> is a panic, \<open>Some None\<close> is
  "this marker does not apply here", \<open>Some (Some (span, i'))\<close> is the span appended and
  the position the loop continues from.
\<close>

definition bold_at :: "string \<Rightarrow> int \<Rightarrow> (gmap \<times> int) option option" where
  "bold_at text i = do {
     c \<leftarrow> and_then (Some (i + 1 < len text))
            (and_then (byte_is text i (CHR ''*'')) (byte_is text (i + 1) (CHR ''*'')));
     if c then do {
       e \<leftarrow> findClosing text (i + 2) ''**'';
       if e > 0 then do {
         content \<leftarrow> slice text (i + 2) e;
         Some (Some (annotated_span ''bold'' content, e + 2))
       } else Some None
     } else Some None
   }"

definition italic_at :: "string \<Rightarrow> int \<Rightarrow> (gmap \<times> int) option option" where
  "italic_at text i = do {
     c \<leftarrow> and_then (byte_is text i (CHR ''*''))
            (or_else (Some (i + 1 \<ge> len text)) (byte_isnt text (i + 1) (CHR ''*'')));
     if c then do {
       e \<leftarrow> findClosingSingle text (i + 1) (CHR ''*'');
       if e > 0 then do {
         content \<leftarrow> slice text (i + 1) e;
         Some (Some (annotated_span ''italic'' content, e + 1))
       } else Some None
     } else Some None
   }"

definition code_at :: "string \<Rightarrow> int \<Rightarrow> (gmap \<times> int) option option" where
  "code_at text i = do {
     c \<leftarrow> byte_is text i BQ;
     if c then do {
       e \<leftarrow> findClosingSingle text (i + 1) BQ;
       if e > 0 then do {
         content \<leftarrow> slice text (i + 1) e;
         Some (Some (annotated_span ''code'' content, e + 1))
       } else Some None
     } else Some None
   }"

definition link_at :: "string \<Rightarrow> int \<Rightarrow> (gmap \<times> int) option option" where
  "link_at text i = do {
     c \<leftarrow> byte_is text i (CHR ''['');
     if c then do {
       closeBracket \<leftarrow> findClosingSingle text (i + 1) (CHR '']'');
       c2 \<leftarrow> and_then (Some (closeBracket > 0 \<and> closeBracket + 1 < len text))
               (byte_is text (closeBracket + 1) (CHR ''(''));
       if c2 then do {
         closeParen \<leftarrow> findClosingSingle text (closeBracket + 2) (CHR '')'');
         if closeParen > 0 then do {
           linkText \<leftarrow> slice text (i + 1) closeBracket;
           linkURL \<leftarrow> slice text (closeBracket + 2) closeParen;
           if HasPrefix linkURL ''notion://'' \<and> HasPrefix linkText ''@''
           then Some (Some (mention_span (TrimPrefix linkURL ''notion://''), closeParen + 1))
           else Some (Some (link_span linkText linkURL, closeParen + 1))
         } else Some None
       } else Some None
     } else Some None
   }"

text \<open>The inner loop of the "regular text" case: skip to the next special byte.\<close>

function skip_plain :: "string \<Rightarrow> int \<Rightarrow> int option" where
  "skip_plain text i =
     (if i < len text
      then (case byte_at text i of
              None \<Rightarrow> None
            | Some c \<Rightarrow>
                if c \<noteq> CHR ''*'' \<and> c \<noteq> BQ \<and> c \<noteq> CHR ''[''
                then skip_plain text (i + 1) else Some i)
      else Some i)"
  by pat_completeness auto
termination
  by (relation "measure (\<lambda>(text, i). nat (len text - i))") auto

declare skip_plain.simps [simp del]

definition plain_at :: "string \<Rightarrow> int \<Rightarrow> (gmap \<times> int) option" where
  "plain_at text start = do {
     i \<leftarrow> skip_plain text start;
     if i > start then do {
       content \<leftarrow> slice text start i;
       Some (plain_span content, i)
     } else do {
       c \<leftarrow> byte_at text i;
       Some (plain_span [c], i + 1)
     }
   }"

text \<open>One iteration of the loop at position \<open>i\<close>: the markers are tried in the order of
  the source, and the first that applies ends the iteration (\<open>continue\<close>).\<close>

definition scan_step :: "string \<Rightarrow> int \<Rightarrow> (gmap \<times> int) option" where
  "scan_step text i = do {
     b \<leftarrow> bold_at text i;
     case b of Some r \<Rightarrow> Some r | None \<Rightarrow> do {
       it \<leftarrow> italic_at text i;
       case it of Some r \<Rightarrow> Some r | None \<Rightarrow> do {
         co \<leftarrow> code_at text i;
         case co of Some r \<Rightarrow> Some r | None \<Rightarrow> do {
           li \<leftarrow> link_at text i;
           case li of Some r \<Rightarrow> Some r | None \<Rightarrow> plain_at text i
         }
       }
     }
   }"

lemma findClosing_ge: "findClosing s p m = Some e \<Longrightarrow> e = - 1 \<or> p \<le> e"
proof (induction s p m rule: findClosing.induct)
  case (1 s i marker)
  from "1.prems" show ?case
    by (subst (asm) findClosing.simps) (auto split: if_splits option.splits dest: "1.IH")
qed

lemma findClosingSingle_ge: "findClosingSingle s p c = Some e \<Longrightarrow> e = - 1 \<or> p \<le> e"
proof (induction s p c rule: findClosingSingle.induct)
  case (1 s i marker)
  from "1.prems" show ?case
    by (subst (asm) findClosingSingle.simps) (auto split: if_splits option.splits dest: "1.IH")
qed

lemma skip_plain_ge: "skip_plain s p = Some e \<Longrightarrow> p \<le> e"
proof (induction s p rule: skip_plain.induct)
  case (1 s i)
  from "1.prems" show ?case
    by (subst (asm) skip_plain.simps) (auto split: if_splits option.splits dest: "1.IH")
qed

lemma bold_at_adv: "bold_at text i = Some (Some (sp, i')) \<Longrightarrow> i < i'"
  by (auto simp: bold_at_def Option.bind_eq_Some_conv split: if_splits dest!: findClosing_ge)

lemma italic_at_adv: "italic_at text i = Some (Some (sp, i')) \<Longrightarrow> i < i'"
  by (auto simp: italic_at_def Option.bind_eq_Some_conv split: if_splits dest!: findClosingSingle_ge)

lemma code_at_adv: "code_at text i = Some (Some (sp, i')) \<Longrightarrow> i < i'"
  by (auto simp: code_at_def Option.bind_eq_Some_conv split: if_splits dest!: findClosingSingle_ge)

lemma link_at_adv: "link_at text i = Some (Some (sp, i')) \<Longrightarrow> i < i'"
  by (auto simp: link_at_def Option.bind_eq_Some_conv and_then_def split: if_splits dest!: findClosingSingle_ge)

lemma plain_at_adv: "plain_at text i = Some (sp, i') \<Longrightarrow> i < i'"
  by (auto simp: plain_at_def Option.bind_eq_Some_conv split: if_splits dest!: skip_plain_ge)

lemma scan_step_advances: "scan_step text i = Some (sp, i') \<Longrightarrow> i < i'"
  by (auto simp: scan_step_def Option.bind_eq_Some_conv split: option.splits
      dest: bold_at_adv italic_at_adv code_at_adv link_at_adv plain_at_adv)

text \<open>The loop \<open>for i < len(text)\<close>: the spans appended from position \<open>i\<close> on, in order.\<close>

function scan_from :: "string \<Rightarrow> int \<Rightarrow> gmap list option" where
  "scan_from text i =
     (if i < len text
      then (case scan_step text i of
              None \<Rightarrow> None
            | Some (sp, i') \<Rightarrow> map_option ((#) sp) (scan_from text i'))
      else Some [])"
  by pat_completeness auto
termination
proof (relation "measure (\<lambda>(text, i). nat (len text - i))")
  show "wf (measure (\<lambda>(text, i). nat (len text - i)))" by simp
next
  fix s :: string and i :: int and x2 :: "gmap \<times> int" and sp :: gmap and i' :: int
  assume "i < len s" "scan_step s i = Some x2" "(sp, i') = x2"
  then have "i < i'" using scan_step_advances by metis
  with \<open>i < len s\<close> show "((s, i'), s, i) \<in> measure (\<lambda>(text, i). nat (len text - i))"
    by simp
qed

declare scan_from.simps [simp del]

definition parseInlineMarkdown :: "string \<Rightarrow> gmap list option" where
  "parseInlineMarkdown text = do {
     result \<leftarrow> scan_from text 0;
     if length result = 0 then Some [plain_span text] else Some result
   }"

section \<open>The table decoder (markdown.go, parseMarkdownTable)\<close>

definition parseCells :: "string \<Rightarrow> string list" where
  "parseCells row0 =
     (let row1 = TrimSpace row0;
          row2 = (if length row1 > 0 \<and> row1 ! 0 = CHR ''|'' then drop 1 row1 else row1);
          row3 = (if length row2 > 0 \<and> row2 ! (length row2 - 1) = CHR ''|''
                  then take (length row2 - 1) row2 else row2)
      in map TrimSpace (Split row3 (CHR ''|'')))"

text \<open>\<open>isSeparator\<close> ranges over the runes of the row; a rune is one of the four ASCII
  characters exactly when it is that single byte, so the test is the same on bytes.\<close>

definition isSeparator :: "string \<Rightarrow> bool" where
  "isSeparator row0 =
     (let row = TrimSpace row0 in
      list_all (\<lambda>c. \<not> (c \<noteq> CHR ''|'' \<and> c \<noteq> CHR ''-'' \<and> c \<noteq> CHR '':'' \<and> c \<noteq> CHR '' '')) row
      \<and> CHR ''-'' \<in> set row)"

text \<open>The first loop: the cells of every row that is not a separator.\<close>

fun dataRows :: "string list \<Rightarrow> string list list" where
  "dataRows [] = []"
| "dataRows (row # rows) =
     (if \<not> isSeparator row
      then (let cells = parseCells row in
            if length cells > 0 then cells # dataRows rows else dataRows rows)
      else dataRows rows)"

text \<open>\<open>for len(cells) < tableWidth { cells = append(cells, "") }\<close> and \<open>cells[:tableWidth]\<close>.\<close>

definition pad_cells :: "nat \<Rightarrow> string list \<Rightarrow> string list" where
  "pad_cells tableWidth cells =
     take tableWidth (cells @ replicate (tableWidth - length cells) [])"

text \<open>Running a list of steps that may panic, in order.\<close>

fun mapM :: "('a \<Rightarrow> 'b option) \<Rightarrow> 'a list \<Rightarrow> 'b list option" where
  "mapM f [] = Some []"
| "mapM f (x # xs) = do { y \<leftarrow> f x; ys \<leftarrow> mapM f xs; Some (y # ys) }"

definition table_row_block :: "gmap list list \<Rightarrow> gmap" where
  "table_row_block notionCells =
     [(''object'', GString ''block''), (''type'', GString ''table_row''),
      (''table_row'', GMap [(''cells'', GSliceSliceMap notionCells)])]"

definition table_block :: "nat \<Rightarrow> gmap list \<Rightarrow> gmap" where
  "table_block tableWidth tableRowBlocks =
     [(''object'', GString ''block''), (''type'', GString ''table''),
      (''table'', GMap [(''table_width'', GInt (int tableWidth)),
                        (''has_column_header'', GBool True),
                        (''has_row_header'', GBool False),
                        (''children'', GSliceMap tableRowBlocks)])]"

text \<open>The result is \<open>Some None\<close> where the source returns \<open>nil\<close>.\<close>

definition parseMarkdownTable :: "string list \<Rightarrow> gmap option option" where
  "parseMarkdownTable rows =
     (if length rows < 2 then Some None
      else (let drs = dataRows rows in
            if length drs = 0 then Some None
            else (let tableWidth = length (drs ! 0) in do {
              tableRowBlocks \<leftarrow>
                mapM (\<lambda>cells. do {
                        notionCells \<leftarrow> mapM parseInlineMarkdown (pad_cells tableWidth cells);
                        Some (table_row_block notionCells)
                      }) drs;
              Some (Some (table_block tableWidth tableRowBlocks))
            })))"

section \<open>The block decoder (markdown.go, MarkdownToBlocks)\<close>

text \<open>\<open>splitLines\<close>: \<open>cur\<close> is \<open>s[start:i]\<close>, the second argument is \<open>s[i:]\<close>.  What follows the
  last newline is a line only when it is not empty.\<close>

fun splitLines_loop :: "string \<Rightarrow> string \<Rightarrow> string list" where
  "splitLines_loop cur [] = (if cur \<noteq> [] then [cur] else [])"
| "splitLines_loop cur (c # cs) =
     (if c = NL then cur # splitLines_loop [] cs else splitLines_loop (cur @ [c]) cs)"

definition splitLines :: "string \<Rightarrow> string list" where
  "splitLines s = splitLines_loop [] s"

definition rich_block :: "string \<Rightarrow> gmap list \<Rightarrow> gmap" where
  "rich_block t rt =
     [(''object'', GString ''block''), (''type'', GString t),
      (t, GMap [(''rich_text'', GSliceMap rt)])]"

definition divider_block :: gmap where
  "divider_block =
     [(''object'', GString ''block''), (''type'', GString ''divider''),
      (''divider'', GMap [])]"

definition code_block :: "string \<Rightarrow> string \<Rightarrow> gmap" where
  "code_block codeContent notionLang =
     [(''object'', GString ''block''), (''type'', GString ''code''),
      (''code'', GMap [(''rich_text'', GSliceMap [plain_span codeContent]),
                       (''language'', GString notionLang)])]"

definition to_do_block :: "gmap list \<Rightarrow> bool \<Rightarrow> gmap" where
  "to_do_block rt checked =
     [(''object'', GString ''block''), (''type'', GString ''to_do''),
      (''to_do'', GMap [(''rich_text'', GSliceMap rt), (''checked'', GBool checked)])]"

definition is_child_page_marker :: "string \<Rightarrow> bool" where
  "is_child_page_marker line = (HasPrefix line ''<!-- child_page:'' \<and> HasSuffix line ''-->'')"

definition is_fence :: "string \<Rightarrow> bool" where
  "is_fence line = (length line \<ge> 3 \<and> take 3 line = [BQ, BQ, BQ])"

definition starts_bar :: "string \<Rightarrow> bool" where
  "starts_bar line = (length line > 0 \<and> line ! 0 = CHR ''|'')"

definition is_digit :: "char \<Rightarrow> bool" where
  "is_digit c = (48 \<le> (of_char c :: nat) \<and> (of_char c :: nat) \<le> 57)"

text \<open>The loop \<open>for j := 1; j < len(line) && j < 4; j++\<close> of the numbered-list case, from
  \<open>j\<close> on: the value of \<open>dotIdx\<close> when the loop ends.\<close>

function find_dot :: "string \<Rightarrow> nat \<Rightarrow> int" where
  "find_dot line j =
     (if j < length line \<and> j < 4
      then (if line ! j = CHR ''.'' \<and> j + 1 < length line \<and> line ! (j + 1) = CHR '' ''
            then int j
            else if \<not> is_digit (line ! j) then - 1
            else find_dot line (j + 1))
      else - 1)"
  by pat_completeness auto
termination
  by (relation "measure (\<lambda>(line, j). 4 - j)") auto

declare find_dot.simps [simp del]

text \<open>
  The main loop over \<open>lines[i:]\<close>.  The code fence and the table consume the lines that
  their inner loops step over; a closing fence is consumed with the block.  A panic of
  the inline decoder is the value \<open>None\<close>.
\<close>

function MarkdownToBlocks_lines :: "(string \<Rightarrow> string) \<Rightarrow> string list \<Rightarrow> gmap list option" where
  "MarkdownToBlocks_lines ulower [] = Some []"
| "MarkdownToBlocks_lines ulower (line # rest) =
     (if line = [] then MarkdownToBlocks_lines ulower rest
      else if is_child_page_marker line then MarkdownToBlocks_lines ulower rest
      else if length line > 2 \<and> line ! 0 = CHR ''#'' \<and> line ! 1 = CHR '' '' then do {
        rt \<leftarrow> parseInlineMarkdown (drop 2 line);
        blocks \<leftarrow> MarkdownToBlocks_lines ulower rest;
        Some (rich_block ''heading_1'' rt # blocks) }
      else if length line > 3 \<and> take 3 line = ''## '' then do {
        rt \<leftarrow> parseInlineMarkdown (drop 3 line);
        blocks \<leftarrow> MarkdownToBlocks_lines ulower rest;
        Some (rich_block ''heading_2'' rt # blocks) }
      else if length line > 4 \<and> take 4 line = ''### '' then do {
        rt \<leftarrow> parseInlineMarkdown (drop 4 line);
        blocks \<leftarrow> MarkdownToBlocks_lines ulower rest;
        Some (rich_block ''heading_3'' rt # blocks) }
      else if line = ''---'' then do {
        blocks \<leftarrow> MarkdownToBlocks_lines ulower rest;
        Some (divider_block # blocks) }
      else if is_fence line then do {
        blocks \<leftarrow> MarkdownToBlocks_lines ulower
                    (drop 1 (dropWhile (\<lambda>l. \<not> is_fence l) rest));
        Some (code_block (Join (takeWhile (\<lambda>l. \<not> is_fence l) rest) [NL])
                (mapLanguageToNotion ulower (TrimSpace (drop 3 line))) # blocks) }
      else if length line > 5 \<and> (take 5 line = ''- [ ]'' \<or> take 5 line = ''- [x]'') then do {
        rt \<leftarrow> parseInlineMarkdown (if length line > 6 then drop 6 line else []);
        blocks \<leftarrow> MarkdownToBlocks_lines ulower rest;
        Some (to_do_block rt (line ! 3 = CHR ''x'') # blocks) }
      else if length line > 2 \<and> take 2 line = ''- '' then do {
        rt \<leftarrow> parseInlineMarkdown (drop 2 line);
        blocks \<leftarrow> MarkdownToBlocks_lines ulower rest;
        Some (rich_block ''bulleted_list_item'' rt # blocks) }
      else if length line > 3 \<and> is_digit (line ! 0) \<and> find_dot line 1 > 0 then do {
        rt \<leftarrow> parseInlineMarkdown (drop (nat (find_dot line 1) + 2) line);
        blocks \<leftarrow> MarkdownToBlocks_lines ulower rest;
        Some (rich_block ''numbered_list_item'' rt # blocks) }
      else if length line > 2 \<and> take 2 line = ''> '' then do {
        rt \<leftarrow> parseInlineMarkdown (drop 2 line);
        blocks \<leftarrow> MarkdownToBlocks_lines ulower rest;
        Some (rich_block ''quote'' rt # blocks) }
      else if starts_bar line then do {
        tableBlock \<leftarrow> parseMarkdownTable (line # takeWhile starts_bar rest);
        blocks \<leftarrow> MarkdownToBlocks_lines ulower (dropWhile starts_bar rest);
        Some (case tableBlock of None \<Rightarrow> blocks | Some t \<Rightarrow> t # blocks) }
      else do {
        rt \<leftarrow> parseInlineMarkdown line;
        blocks \<leftarrow> MarkdownToBlocks_lines ulower rest;
        Some (rich_block ''paragraph'' rt # blocks) })"
  by pat_completeness auto
termination
proof (relation "measure (\<lambda>(u, ls). length ls)")
  show "wf (measure (\<lambda>(u, ls). length ls))" by simp
next
  fix ulower :: "string \<Rightarrow> string" and line :: string and rest :: "string list"
  have "length (dropWhile (\<lambda>l. \<not> is_fence l) rest) \<le> length rest"
    by (rule length_dropWhile_le)
  then show "((ulower, drop 1 (dropWhile (\<lambda>l. \<not> is_fence l) rest)), ulower, line # rest)
               \<in> measure (\<lambda>(u, ls). length ls)"
    by simp
next
  fix ulower :: "string \<Rightarrow> string" and line :: string and rest :: "string list"
  have "length (dropWhile starts_bar rest) \<le> length rest"
    by (rule length_dropWhile_le)
  then show "((ulower, dropWhile starts_bar rest), ulower, line # rest)
               \<in> measure (\<lambda>(u, ls). length ls)"
    by simp
qed auto

declare MarkdownToBlocks_lines.simps [simp del]

definition MarkdownToBlocks :: "(string \<Rightarrow> string) \<Rightarrow> string \<Rightarrow> gmap list option" where
  "MarkdownToBlocks ulower markdown = MarkdownToBlocks_lines ulower (splitLines markdown)"

section \<open>The encoder (markdown.go, BlocksToMarkdownWithChildPages)\<close>

definition apply_annotations :: "gmap \<Rightarrow> string \<Rightarrow> string" where
  "apply_annotations rt content =
     (case as_map (index rt ''annotations'') of
        None \<Rightarrow> content
      | Some annotations \<Rightarrow>
          (let c1 = (if as_bool (index annotations ''code'')
                     then [BQ] @ content @ [BQ] else content);
               c2 = (if as_bool (index annotations ''bold'') then ''**'' @ c1 @ ''**'' else c1);
               c3 = (if as_bool (index annotations ''italic'') then ''*'' @ c2 @ ''*'' else c2)
           in if as_bool (index annotations ''strikethrough'') then ''~~'' @ c3 @ ''~~'' else c3))"

text \<open>The end of one iteration of \<open>richTextToMarkdown\<close>: annotations, then the link.\<close>

definition finish_item :: "gmap \<Rightarrow> string \<Rightarrow> string \<Rightarrow> string" where
  "finish_item rt content linkURL =
     (let c = apply_annotations rt content in
      if linkURL \<noteq> [] then ''['' @ c @ '']('' @ linkURL @ '')'' else c)"

text \<open>What one iteration of \<open>richTextToMarkdown\<close> writes for one item.\<close>

definition richTextItem :: "gval \<Rightarrow> string" where
  "richTextItem item =
     (case as_map item of
        None \<Rightarrow> []
      | Some rt \<Rightarrow>
          (let itemType = as_string (index rt ''type'');
               plainText = as_string (index rt ''plain_text'')
           in if itemType = ''text'' then
                (case as_map (index rt ''text'') of
                   None \<Rightarrow> finish_item rt [] []
                 | Some textObj \<Rightarrow>
                     finish_item rt (as_string (index textObj ''content''))
                       (case as_map (index textObj ''link'') of
                          None \<Rightarrow> []
                        | Some link \<Rightarrow> as_string (index link ''url'')))
              else if itemType = ''mention'' then
                (case as_map (index rt ''mention'') of
                   None \<Rightarrow> finish_item rt plainText []
                 | Some mention \<Rightarrow>
                     if as_string (index mention ''type'') = ''page'' then
                       (case as_map (index mention ''page'') of
                          None \<Rightarrow> finish_item rt plainText []
                        | Some page \<Rightarrow>
                            ''[@'' @ (if plainText = [] then ''Page'' else plainText)
                            @ ''](notion://'' @ as_string (index page ''id'') @ '')'')
                     else plainText)
              else finish_item rt plainText []))"

definition richTextToMarkdown :: "gval list \<Rightarrow> string" where
  "richTextToMarkdown richText = concat (map richTextItem richText)"

text \<open>\<open>extractBlockText\<close>: \<open>richText\<close> stays \<open>nil\<close> unless the block's payload is a
  \<open>map[string]any\<close> whose \<open>rich_text\<close> is a \<open>[]any\<close>.\<close>

definition extractBlockText :: "gmap \<Rightarrow> string \<Rightarrow> string" where
  "extractBlockText b blockType =
     richTextToMarkdown
       (case as_map (index b blockType) of
          None \<Rightarrow> []
        | Some content \<Rightarrow>
            (case as_slice (index content ''rich_text'') of Some rt \<Rightarrow> rt | None \<Rightarrow> []))"

definition comment_line :: "gmap \<Rightarrow> string" where
  "comment_line c =
     (let author = as_string (index c ''author'');
          content = as_string (index c ''content'');
          date = as_string (index c ''created_at'')
      in ''> **'' @ (if author = [] then ''Unknown'' else author) @ ''** *('' @ date
         @ '')*: '' @ content @ [NL, NL])"

definition formatBlockComments :: "gmap \<Rightarrow> string" where
  "formatBlockComments b =
     (case as_slice_map (index b ''_comments'') of
        None \<Rightarrow> []
      | Some comments \<Rightarrow> concat (map comment_line comments))"

text \<open>The children of a table block, when both assertions of the source succeed.\<close>

definition table_children :: "gmap \<Rightarrow> gval list option" where
  "table_children b =
     (case as_map (index b ''table'') of
        None \<Rightarrow> None
      | Some tableData \<Rightarrow> as_slice (index tableData ''children''))"

definition extractTableComments :: "gmap \<Rightarrow> string" where
  "extractTableComments b =
     (case table_children b of
        None \<Rightarrow> []
      | Some children \<Rightarrow>
          concat (map (\<lambda>child.
                    case as_map child of
                      None \<Rightarrow> []
                    | Some row \<Rightarrow> formatBlockComments row) children))"

text \<open>The first loop of \<open>extractTableMarkdown\<close>: the rows, each a list of cell texts.\<close>

definition row_cells :: "gval \<Rightarrow> string list list" where
  "row_cells child =
     (case as_map child of
        None \<Rightarrow> []
      | Some row \<Rightarrow>
          (case as_map (index row ''table_row'') of
             None \<Rightarrow> []
           | Some rowData \<Rightarrow>
               (case as_slice (index rowData ''cells'') of
                  None \<Rightarrow> []
                | Some cells \<Rightarrow>
                    [concat (map (\<lambda>cell.
                               case as_slice cell of
                                 None \<Rightarrow> []
                               | Some cellItems \<Rightarrow> [richTextToMarkdown cellItems]) cells)])))"

definition row_line :: "string list \<Rightarrow> string" where
  "row_line row = ''| '' @ Join row '' | '' @ '' |'' @ [NL]"

definition extractTableMarkdown :: "gmap \<Rightarrow> string" where
  "extractTableMarkdown b =
     (case table_children b of
        None \<Rightarrow> []
      | Some children \<Rightarrow>
          (case concat (map row_cells children) of
             [] \<Rightarrow> []
           | row # rows \<Rightarrow>
               row_line row @ row_line (replicate (length row) ''---'')
               @ concat (map row_line rows)))"

text \<open>
  The loop of \<open>BlocksToMarkdownWithChildPages\<close> carries the text written so far, \<open>listNum\<close>
  and \<open>lastType\<close>.  \<open>trailingChildPages\<close> is a \<open>map[string]bool\<close> whose entries are all
  \<open>true\<close>; it is the list of its keys, and \<open>nil\<close> is the empty list.
\<close>

definition child_page_text :: "gmap \<Rightarrow> string \<Rightarrow> string" where
  "child_page_text b pageID =
     (case as_map (index b ''child_page'') of
        None \<Rightarrow> []
      | Some childPage \<Rightarrow>
          (let title = as_string (index childPage ''title'') in
           ''[@'' @ (if title = [] then ''Untitled'' else title) @ ''](notion://'' @ pageID
           @ '')'' @ [NL, NL]))"

definition encode_block ::
  "string list \<Rightarrow> string \<times> nat \<times> string \<Rightarrow> gmap \<Rightarrow> string \<times> nat \<times> string" where
  "encode_block trailingChildPages st b =
     (case st of (result, listNum0, lastType) \<Rightarrow>
      (let blockType = as_string (index b ''type'') in
       if blockType = [] then st
       else
        (let listNum = (if blockType \<noteq> ''numbered_list_item'' \<and> lastType = ''numbered_list_item''
                        then 1 else listNum0);
             text = extractBlockText b blockType;
             pageID = as_string (index b ''id'')
         in
         if blockType = ''child_page'' \<and> pageID \<noteq> [] \<and> pageID \<in> set trailingChildPages
         then (result, listNum, lastType)
         else
          (let written =
                 (if blockType = ''heading_1'' then ''# '' @ text @ [NL, NL]
                  else if blockType = ''heading_2'' then ''## '' @ text @ [NL, NL]
                  else if blockType = ''heading_3'' then ''### '' @ text @ [NL, NL]
                  else if blockType = ''paragraph'' then text @ [NL, NL]
                  else if blockType = ''bulleted_list_item'' then ''- '' @ text @ [NL]
                  else if blockType = ''numbered_list_item''
                    then Itoa listNum @ ''. '' @ text @ [NL]
                  else if blockType = ''to_do''
                    then ''- ['' @ (case as_map (index b ''to_do'') of
                                     None \<Rightarrow> '' ''
                                   | Some todoBlock \<Rightarrow>
                                       if as_bool (index todoBlock ''checked'') then ''x'' else '' '')
                         @ ''] '' @ text @ [NL]
                  else if blockType = ''quote'' then ''> '' @ text @ [NL, NL]
                  else if blockType = ''callout'' then ''> '' @ text @ [NL, NL]
                  else if blockType = ''code''
                    then [BQ, BQ, BQ]
                         @ (case as_map (index b ''code'') of
                              None \<Rightarrow> []
                            | Some codeBlock \<Rightarrow> as_string (index codeBlock ''language''))
                         @ [NL] @ text @ [NL] @ [BQ, BQ, BQ] @ [NL, NL]
                  else if blockType = ''divider'' then ''---'' @ [NL, NL]
                  else if blockType = ''child_page''
                    then (if pageID \<noteq> [] then child_page_text b pageID else [])
                  else if blockType = ''table''
                    then extractTableMarkdown b @ [NL] @ extractTableComments b
                  else if text \<noteq> [] then text @ [NL, NL] else []);
               comments = (if blockType \<noteq> ''table'' then formatBlockComments b else [])
           in (result @ written @ comments,
               if blockType = ''numbered_list_item'' then listNum + 1 else listNum,
               blockType)))))"

definition BlocksToMarkdownWithChildPages :: "gmap list \<Rightarrow> string list \<Rightarrow> string" where
  "BlocksToMarkdownWithChildPages blocks trailingChildPages =
     fst (foldl (encode_block trailingChildPages) ([], 1, []) blocks)"

definition BlocksToMarkdown :: "gmap list \<Rightarrow> string" where
  "BlocksToMarkdown blocks = BlocksToMarkdownWithChildPages blocks []"

section \<open>Lemmas: trimming white space\<close>

lemma HasPrefix_append: "HasPrefix s p \<longleftrightarrow> (\<exists>t. s = p @ t)"
  unfolding HasPrefix_def by (metis append_eq_conv_conj append_take_drop_id)

lemma HasSuffix_append: "HasSuffix s p \<longleftrightarrow> (\<exists>t. s = t @ p)"
  unfolding HasSuffix_def
  by (metis append_eq_conv_conj append_take_drop_id diff_add_inverse2 length_append le_add2)

lemma leading_space_0_iff: "leading_space s = 0 \<longleftrightarrow> (\<forall>w \<in> set space_runes. \<not> HasPrefix s w)"
proof (cases "find (HasPrefix s) space_runes")
  case None
  have "leading_space s = 0" using None by (simp add: leading_space_def)
  moreover have "\<forall>w \<in> set space_runes. \<not> HasPrefix s w"
    using None by (simp add: find_None_iff)
  ultimately show ?thesis by simp
next
  case (Some w)
  then have "w \<in> set space_runes" "HasPrefix s w"
    by (auto simp: find_Some_iff)
  with Some show ?thesis
    using space_runes_nonempty by (auto simp: leading_space_def)
qed

lemma trailing_space_0_iff: "trailing_space s = 0 \<longleftrightarrow> (\<forall>w \<in> set space_runes. \<not> HasSuffix s w)"
proof (cases "find (HasSuffix s) space_runes")
  case None
  have "trailing_space s = 0" using None by (simp add: trailing_space_def)
  moreover have "\<forall>w \<in> set space_runes. \<not> HasSuffix s w"
    using None by (simp add: find_None_iff)
  ultimately show ?thesis by simp
next
  case (Some w)
  then have "w \<in> set space_runes" "HasSuffix s w"
    by (auto simp: find_Some_iff)
  with Some show ?thesis
    using space_runes_nonempty by (auto simp: trailing_space_def)
qed

lemma TrimLeftSpace_leading: "leading_space (TrimLeftSpace s) = 0"
proof (induction s rule: TrimLeftSpace.induct)
  case (1 s)
  then show ?case by (subst TrimLeftSpace.simps) simp
qed

lemma TrimRightSpace_trailing: "trailing_space (TrimRightSpace s) = 0"
proof (induction s rule: TrimRightSpace.induct)
  case (1 s)
  then show ?case by (subst TrimRightSpace.simps) simp
qed

lemma TrimLeftSpace_id: "leading_space s = 0 \<Longrightarrow> TrimLeftSpace s = s"
  by (subst TrimLeftSpace.simps) simp

lemma TrimRightSpace_id: "trailing_space s = 0 \<Longrightarrow> TrimRightSpace s = s"
  by (subst TrimRightSpace.simps) simp

lemma TrimRightSpace_take: "\<exists>k. TrimRightSpace s = take k s"
proof (induction s rule: TrimRightSpace.induct)
  case (1 s)
  show ?case
  proof (cases "trailing_space s = 0")
    case True
    then have "TrimRightSpace s = take (length s) s" by (simp add: TrimRightSpace_id)
    then show ?thesis by blast
  next
    case False
    with 1 obtain k where "TrimRightSpace (take (length s - trailing_space s) s) = take k (take (length s - trailing_space s) s)"
      by blast
    with False have "TrimRightSpace s = take (min k (length s - trailing_space s)) s"
      by (subst TrimRightSpace.simps) (simp add: min.commute)
    then show ?thesis by blast
  qed
qed

lemma TrimLeftSpace_drop: "\<exists>k. TrimLeftSpace s = drop k s"
proof (induction s rule: TrimLeftSpace.induct)
  case (1 s)
  show ?case
  proof (cases "leading_space s = 0")
    case True
    then have "TrimLeftSpace s = drop 0 s" by (simp add: TrimLeftSpace_id)
    then show ?thesis by blast
  next
    case False
    with 1 obtain k where "TrimLeftSpace (drop (leading_space s) s) = drop k (drop (leading_space s) s)"
      by blast
    with False have "TrimLeftSpace s = drop (k + leading_space s) s"
      by (subst TrimLeftSpace.simps) simp
    then show ?thesis by blast
  qed
qed

lemma leading_space_take: "leading_space s = 0 \<Longrightarrow> leading_space (take k s) = 0"
  unfolding leading_space_0_iff HasPrefix_append
  by (metis append.assoc append_take_drop_id)

lemma TrimSpace_leading: "leading_space (TrimSpace s) = 0"
proof -
  obtain k where "TrimRightSpace (TrimLeftSpace s) = take k (TrimLeftSpace s)"
    using TrimRightSpace_take by blast
  then show ?thesis
    by (simp add: TrimSpace_def leading_space_take TrimLeftSpace_leading)
qed

lemma TrimSpace_trailing: "trailing_space (TrimSpace s) = 0"
  by (simp add: TrimSpace_def TrimRightSpace_trailing)

lemma TrimSpace_id: "leading_space s = 0 \<Longrightarrow> trailing_space s = 0 \<Longrightarrow> TrimSpace s = s"
  by (simp add: TrimSpace_def TrimLeftSpace_id TrimRightSpace_id)

lemma TrimSpace_idem: "TrimSpace (TrimSpace s) = TrimSpace s"
  by (simp add: TrimSpace_id TrimSpace_leading TrimSpace_trailing)

section \<open>Lemmas: the language table and code fences\<close>

lemma languageMap_values_known: "map_of languageMap l = Some m \<Longrightarrow> m \<in> set knownLanguages"
  by (auto simp: languageMap_def knownLanguages_def split: if_splits)

lemma mapLanguageToNotion_known: "mapLanguageToNotion ulower lang \<in> set knownLanguages"
proof -
  have pt: "''plain text'' \<in> set knownLanguages" by (simp add: knownLanguages_def)
  show ?thesis
    unfolding mapLanguageToNotion_def Let_def
    by (auto simp: pt languageMap_values_known split: option.splits)
qed

lemma fence_not_marker: "is_fence line \<Longrightarrow> \<not> is_child_page_marker line"
  by (cases line) (auto simp: is_fence_def is_child_page_marker_def HasPrefix_def)

lemma is_fence_iff: "is_fence line \<longleftrightarrow> (\<exists>t. line = BQ # BQ # BQ # t)"
proof
  assume "is_fence line"
  then have "take 3 line = [BQ, BQ, BQ]" by (simp add: is_fence_def)
  then have "line = BQ # BQ # BQ # drop 3 line"
    by (metis append_Cons append_Nil append_take_drop_id)
  then show "\<exists>t. line = BQ # BQ # BQ # t" by blast
next
  assume "\<exists>t. line = BQ # BQ # BQ # t"
  then show "is_fence line" by (auto simp: is_fence_def)
qed

lemma MarkdownToBlocks_lines_fence:
  assumes "is_fence line"
  shows "MarkdownToBlocks_lines ulower (line # rest) =
           map_option
             ((#) (code_block (Join (takeWhile (\<lambda>l. \<not> is_fence l) rest) [NL])
                      (mapLanguageToNotion ulower (TrimSpace (drop 3 line)))))
             (MarkdownToBlocks_lines ulower (drop 1 (dropWhile (\<lambda>l. \<not> is_fence l) rest)))"
proof -
  from assms obtain t where line: "line = BQ # BQ # BQ # t"
    by (auto simp: is_fence_iff)
  have "is_fence (BQ # BQ # BQ # t)" by (simp add: is_fence_def)
  then show ?thesis
    unfolding line
    by (subst MarkdownToBlocks_lines.simps)
       (simp add: is_child_page_marker_def HasPrefix_def map_option_case split: option.split)
qed

section \<open>Lemmas: lower-casing and trimming\<close>

lemma space_bytes: "set (concat space_runes) = {CHR 0x09, CHR 0x0A, CHR 0x0B, CHR 0x0C, CHR 0x0D, CHR 0x20, CHR 0xC2, CHR 0x85, CHR 0xA0, CHR 0xE1, CHR 0x9A, CHR 0x80, CHR 0xE2, CHR 0x81, CHR 0x82, CHR 0x83, CHR 0x84, CHR 0x86, CHR 0x87, CHR 0x88, CHR 0x89, CHR 0x8A, CHR 0xA8, CHR 0xA9, CHR 0xAF, CHR 0x9F, CHR 0xE3}"
  unfolding space_runes_def by (simp add: insert_commute)

lemma space_byte_not_letter:
  assumes "d \<in> set (concat space_runes)"
  shows "d \<notin> set ''ABCDEFGHIJKLMNOPQRSTUVWXYZ''" and "d \<notin> set ''abcdefghijklmnopqrstuvwxyz''"
  using assms unfolding space_bytes by auto

lemma ascii_lower_space_byte:
  assumes "d \<in> set (concat space_runes)"
  shows "(ascii_lower c = d) = (c = d)"
proof (cases "map_of (zip ''ABCDEFGHIJKLMNOPQRSTUVWXYZ'' ''abcdefghijklmnopqrstuvwxyz'') c")
  case None
  then have "ascii_lower c = c" by (simp add: ascii_lower_def)
  then show ?thesis by simp
next
  case (Some l)
  then have "(c, l) \<in> set (zip ''ABCDEFGHIJKLMNOPQRSTUVWXYZ'' ''abcdefghijklmnopqrstuvwxyz'')"
    by (rule map_of_SomeD)
  then have "c \<in> set ''ABCDEFGHIJKLMNOPQRSTUVWXYZ''" "l \<in> set ''abcdefghijklmnopqrstuvwxyz''"
    by (rule set_zip_leftD, rule set_zip_rightD)
  then have "l \<noteq> d" "c \<noteq> d"
    using space_byte_not_letter[OF assms] by blast+
  moreover have "ascii_lower c = l"
    using Some by (simp add: ascii_lower_def)
  ultimately show ?thesis by simp
qed

lemma map_ascii_lower_space:
  "set w \<subseteq> set (concat space_runes) \<Longrightarrow> (map ascii_lower x = w) = (x = w)"
proof (induction w arbitrary: x)
  case Nil
  then show ?case by simp
next
  case (Cons d w)
  then show ?case
    by (cases x) (auto simp: ascii_lower_space_byte)
qed

lemma space_rune_bytes: "w \<in> set space_runes \<Longrightarrow> set w \<subseteq> set (concat space_runes)"
  by auto

lemma leading_space_lower: "leading_space (map ascii_lower s) = leading_space s"
proof -
  have "find (HasPrefix (map ascii_lower s)) space_runes = find (HasPrefix s) space_runes"
    by (rule find_cong) (auto simp: HasPrefix_def take_map map_ascii_lower_space[OF space_rune_bytes])
  then show ?thesis by (simp add: leading_space_def)
qed

lemma trailing_space_lower: "trailing_space (map ascii_lower s) = trailing_space s"
proof -
  have "find (HasSuffix (map ascii_lower s)) space_runes = find (HasSuffix s) space_runes"
    by (rule find_cong) (auto simp: HasSuffix_def drop_map map_ascii_lower_space[OF space_rune_bytes])
  then show ?thesis by (simp add: trailing_space_def)
qed

lemma TrimLeftSpace_lower: "TrimLeftSpace (map ascii_lower s) = map ascii_lower (TrimLeftSpace s)"
proof (induction s rule: TrimLeftSpace.induct)
  case (1 s)
  show ?case
    using 1
    by (subst TrimLeftSpace.simps, subst (2) TrimLeftSpace.simps)
       (simp add: leading_space_lower drop_map)
qed

lemma TrimRightSpace_lower: "TrimRightSpace (map ascii_lower s) = map ascii_lower (TrimRightSpace s)"
proof (induction s rule: TrimRightSpace.induct)
  case (1 s)
  show ?case
    using 1
    by (subst TrimRightSpace.simps, subst (2) TrimRightSpace.simps)
       (simp add: trailing_space_lower take_map)
qed

lemma TrimSpace_lower: "TrimSpace (map ascii_lower s) = map ascii_lower (TrimSpace s)"
  by (simp add: TrimSpace_def TrimLeftSpace_lower TrimRightSpace_lower)

lemma TrimSpace_subset: "set (TrimSpace s) \<subseteq> set s"
proof -
  obtain k where k: "TrimRightSpace (TrimLeftSpace s) = take k (TrimLeftSpace s)"
    using TrimRightSpace_take by blast
  obtain j where j: "TrimLeftSpace s = drop j s"
    using TrimLeftSpace_drop by blast
  have "set (take k (drop j s)) \<subseteq> set (drop j s)" by (rule set_take_subset)
  also have "\<dots> \<subseteq> set s" by (rule set_drop_subset)
  finally show ?thesis using k j by (simp add: TrimSpace_def)
qed

lemma is_ascii_TrimSpace: "is_ascii s \<Longrightarrow> is_ascii (TrimSpace s)"
  using TrimSpace_subset by (auto simp: is_ascii_def list_all_iff)

lemma ToLower_TrimSpace_ascii:
  "is_ascii s \<Longrightarrow> ToLower ulower (TrimSpace s) = TrimSpace (map ascii_lower s)"
  by (simp add: ToLower_def is_ascii_TrimSpace TrimSpace_lower)

section \<open>Lemmas: the language of a hint\<close>

lemma mapLanguageToNotion_empty: "mapLanguageToNotion ulower [] = ''plain text''"
proof -
  have "leading_space [] = 0" "trailing_space [] = 0"
    by (simp_all add: leading_space_def trailing_space_def space_runes_def HasPrefix_def HasSuffix_def)
  then have "TrimSpace [] = []" by (rule TrimSpace_id)
  then show ?thesis by (simp add: mapLanguageToNotion_def ToLower_def is_ascii_def)
qed

lemma mapLanguageToNotion_unknown:
  assumes "ToLower ulower (TrimSpace lang) \<notin> fst ` set languageMap"
    and "ToLower ulower (TrimSpace lang) \<notin> set knownLanguages"
  shows "mapLanguageToNotion ulower lang = ''plain text''"
proof -
  from assms(1) have "map_of languageMap (ToLower ulower (TrimSpace lang)) = None"
    by (simp add: map_of_eq_None_iff)
  with assms(2) show ?thesis by (simp add: mapLanguageToNotion_def Let_def)
qed

lemma mapLanguageToNotion_trim:
  "mapLanguageToNotion ulower (TrimSpace lang) = mapLanguageToNotion ulower lang"
  by (simp add: mapLanguageToNotion_def TrimSpace_idem)

lemma mapLanguageToNotion_case:
  assumes "is_ascii a" "is_ascii b" "map ascii_lower a = map ascii_lower b"
  shows "mapLanguageToNotion ulower a = mapLanguageToNotion ulower b"
proof -
  have "ToLower ulower (TrimSpace a) = ToLower ulower (TrimSpace b)"
    using assms by (simp add: ToLower_TrimSpace_ascii)
  then show ?thesis by (simp add: mapLanguageToNotion_def)
qed

lemmas trim_eval =
  TrimSpace_def TrimLeftSpace.simps TrimRightSpace.simps leading_space_def trailing_space_def
  space_runes_def HasPrefix_def HasSuffix_def

lemmas lang_eval =
  mapLanguageToNotion_def ToLower_def is_ascii_def ascii_lower_def languageMap_def
  knownLanguages_def trim_eval

lemma mapLanguageToNotion_aliases:
  "mapLanguageToNotion ulower ''js'' = ''javascript''"
  "mapLanguageToNotion ulower ''py'' = ''python''"
  "mapLanguageToNotion ulower ''bash'' = ''shell''"
  by (simp_all add: lang_eval)

section \<open>Lemmas: the inline decoder never panics\<close>

text \<open>The position of the first \<open>c\<close> in \<open>s\<close> (the length of \<open>s\<close> when there is none).\<close>

definition idx :: "char \<Rightarrow> string \<Rightarrow> nat" where
  "idx c s = length (takeWhile (\<lambda>x. x \<noteq> c) s)"

definition special :: "char \<Rightarrow> bool" where
  "special c = (c = CHR ''*'' \<or> c = BQ \<or> c = CHR ''['')"

lemma byte_at_nat: "n < length s \<Longrightarrow> byte_at s (int n) = Some (s ! n)"
  by (simp add: byte_at_def len_def)

lemma byte_at_out: "length s \<le> n \<Longrightarrow> byte_at s (int n) = None"
  by (simp add: byte_at_def len_def)

lemma slice_nat:
  "a \<le> b \<Longrightarrow> b \<le> length s \<Longrightarrow> slice s (int a) (int b) = Some (take (b - a) (drop a s))"
  by (simp add: slice_def len_def nat_diff_distrib')

lemma and_then_Some [simp]: "and_then (Some a) x = (if a then x else Some False)"
  by (simp add: and_then_def)

lemma or_else_Some [simp]: "or_else (Some a) x = (if a then Some True else x)"
  by (simp add: or_else_def)

lemma findClosingSingle_nat:
  "findClosingSingle s (int p) c =
     Some (if c \<in> set (drop p s) then int (p + idx c (drop p s)) else - 1)"
proof (induction "length s - p" arbitrary: p)
  case 0
  then show ?case
    by (subst findClosingSingle.simps) (simp add: len_def)
next
  case (Suc k)
  then have p: "p < length s" by simp
  then have d: "drop p s = s ! p # drop (Suc p) s"
    by (simp add: Cons_nth_drop_Suc)
  have k: "k = length s - Suc p" using Suc.hyps(2) by simp
  have e: "int p + 1 = int (Suc p)" by simp
  have ih: "findClosingSingle s (int p + 1) c =
     Some (if c \<in> set (drop (Suc p) s) then int (Suc p + idx c (drop (Suc p) s)) else - 1)"
    unfolding e by (rule Suc.hyps(1)[OF k])
  show ?case
    using p
    by (subst findClosingSingle.simps) (auto simp: len_def byte_at_nat d ih idx_def)
qed

lemma Index_short: "length s < length m \<Longrightarrow> Index s m = - 1"
  by (induction s) (auto simp: HasPrefix_def Let_def)

lemma Index_bounds: "0 \<le> Index s m \<Longrightarrow> nat (Index s m) + length m \<le> length s"
proof (induction s)
  case Nil
  then show ?case by (simp split: if_splits)
next
  case (Cons c cs)
  show ?case
  proof (cases "HasPrefix (c # cs) m")
    case True
    then have "length m \<le> length (c # cs)"
      by (metis HasPrefix_def length_take min.cobounded1)
    with True show ?thesis by simp
  next
    case False
    with Cons show ?thesis
      by (auto simp: Let_def split: if_splits)
  qed
qed

lemma Index_ge: "- 1 \<le> Index s m"
  by (induction s) (auto simp: Let_def)

lemma findClosing_nat:
  "m \<noteq> [] \<Longrightarrow> findClosing s (int p) m =
     Some (if 0 \<le> Index (drop p s) m then int p + Index (drop p s) m else - 1)"
proof (induction "length s - p" arbitrary: p)
  case 0
  then have "length (drop p s) < length m" by simp
  then have "Index (drop p s) m = - 1" by (rule Index_short)
  moreover have "\<not> int p \<le> len s - len m"
    using 0 by (cases m) (simp_all add: len_def)
  ultimately show ?case
    by (subst findClosing.simps) simp
next
  case (Suc k)
  then have p: "p < length s" by simp
  then have d: "drop p s = s ! p # drop (Suc p) s"
    by (simp add: Cons_nth_drop_Suc)
  have k: "k = length s - Suc p" using Suc.hyps(2) by simp
  have e: "int p + 1 = int (Suc p)" by simp
  have ih: "findClosing s (int p + 1) m =
     Some (if 0 \<le> Index (drop (Suc p) s) m then int (Suc p) + Index (drop (Suc p) s) m else - 1)"
    unfolding e by (rule Suc.hyps(1)[OF k Suc.prems])
  show ?case
  proof (cases "int p \<le> len s - len m")
    case True
    then have le: "p + length m \<le> length s" by (simp add: len_def)
    have sl: "slice s (int p) (int p + len m) = Some (take (length m) (drop p s))"
      using slice_nat[of p "p + length m" s] le by (simp add: len_def)
    have hp: "HasPrefix (drop p s) m = (take (length m) (drop p s) = m)"
      by (simp add: HasPrefix_def)
    show ?thesis
      using True Index_ge[of "drop (Suc p) s" m]
      by (subst findClosing.simps) (auto simp: sl ih hp Index.simps(2)[of "s ! p" "drop (Suc p) s", folded d] Let_def)
  next
    case False
    then have "length (drop p s) < length m" using p by (simp add: len_def)
    then have "Index (drop p s) m = - 1" by (rule Index_short)
    with False show ?thesis
      by (subst findClosing.simps) simp
  qed
qed

lemma skip_plain_nat:
  "skip_plain s (int p) = Some (int (p + length (takeWhile (\<lambda>c. \<not> special c) (drop p s))))"
proof (induction "length s - p" arbitrary: p)
  case 0
  then show ?case
    by (subst skip_plain.simps) (simp add: len_def)
next
  case (Suc k)
  then have p: "p < length s" by simp
  then have d: "drop p s = s ! p # drop (Suc p) s"
    by (simp add: Cons_nth_drop_Suc)
  have k: "k = length s - Suc p" using Suc.hyps(2) by simp
  have e: "int p + 1 = int (Suc p)" by simp
  have ih: "skip_plain s (int p + 1) =
     Some (int (Suc p + length (takeWhile (\<lambda>c. \<not> special c) (drop (Suc p) s))))"
    unfolding e by (rule Suc.hyps(1)[OF k])
  show ?case
    using p
    by (subst skip_plain.simps) (auto simp: len_def byte_at_nat d ih special_def)
qed

text \<open>
  The decoder's spans as a datatype.  A mention keeps, beside the page id, the title that
  stood in the markup; the map the decoder builds has no place for it.
\<close>

datatype span =
    Plain string
  | Bold string
  | Italic string
  | Code string
  | Link string string
  | Mention string string

fun span_gmap :: "span \<Rightarrow> gmap" where
  "span_gmap (Plain c) = plain_span c"
| "span_gmap (Bold c) = annotated_span ''bold'' c"
| "span_gmap (Italic c) = annotated_span ''italic'' c"
| "span_gmap (Code c) = annotated_span ''code'' c"
| "span_gmap (Link t u) = link_span t u"
| "span_gmap (Mention title pageID) = mention_span pageID"

text \<open>The markup a span was read from.\<close>

fun span_source :: "span \<Rightarrow> string" where
  "span_source (Plain c) = c"
| "span_source (Bold c) = ''**'' @ c @ ''**''"
| "span_source (Italic c) = ''*'' @ c @ ''*''"
| "span_source (Code c) = [BQ] @ c @ [BQ]"
| "span_source (Link t u) = ''['' @ t @ '']('' @ u @ '')''"
| "span_source (Mention title pageID) = ''[@'' @ title @ ''](notion://'' @ pageID @ '')''"

text \<open>One iteration of the decoder's loop on the rest \<open>t\<close> of the text (not empty): the
  span and the number of bytes it takes.\<close>

definition link_of :: "string \<Rightarrow> (span \<times> nat) option" where
  "link_of t =
     (let kb = idx (CHR '']'') (drop 1 t);
          u = drop (kb + 3) t;
          kp = idx (CHR '')'') u;
          linkText = take kb (drop 1 t);
          linkURL = take kp u
      in if take 1 t = ''['' \<and> CHR '']'' \<in> set (drop 1 t) \<and> take 1 (drop (kb + 2) t) = ''(''
            \<and> CHR '')'' \<in> set u
         then Some (if HasPrefix linkURL ''notion://'' \<and> HasPrefix linkText ''@''
                    then Mention (drop 1 linkText) (TrimPrefix linkURL ''notion://'')
                    else Link linkText linkURL, kb + kp + 4)
         else None)"

definition step_of :: "string \<Rightarrow> span \<times> nat" where
  "step_of t =
     (if take 2 t = ''**'' \<and> 0 \<le> Index (drop 2 t) ''**''
      then (Bold (take (nat (Index (drop 2 t) ''**'')) (drop 2 t)),
            nat (Index (drop 2 t) ''**'') + 4)
      else if take 1 t = ''*'' \<and> take 2 t \<noteq> ''**'' \<and> CHR ''*'' \<in> set (drop 1 t)
      then (Italic (take (idx (CHR ''*'') (drop 1 t)) (drop 1 t)), idx (CHR ''*'') (drop 1 t) + 2)
      else if take 1 t = [BQ] \<and> BQ \<in> set (drop 1 t)
      then (Code (take (idx BQ (drop 1 t)) (drop 1 t)), idx BQ (drop 1 t) + 2)
      else (case link_of t of
              Some r \<Rightarrow> r
            | None \<Rightarrow>
                if special (hd t) then (Plain [hd t], 1)
                else (Plain (takeWhile (\<lambda>c. \<not> special c) t),
                      length (takeWhile (\<lambda>c. \<not> special c) t))))"

lemma drop_head: "n < length s \<Longrightarrow> drop n s = s ! n # drop (Suc n) s"
  by (simp add: Cons_nth_drop_Suc)

lemma take1_drop: "take 1 (drop n s) = [c] \<longleftrightarrow> n < length s \<and> s ! n = c"
  by (cases "n < length s") (simp_all add: drop_head)

lemma take1_drop': "take (Suc 0) (drop n s) = [c] \<longleftrightarrow> n < length s \<and> s ! n = c"
  using take1_drop[of n s c] by simp

lemma take2_drop:
  "take 2 (drop n s) = [c, d] \<longleftrightarrow> Suc n < length s \<and> s ! n = c \<and> s ! Suc n = d"
proof (cases "Suc n < length s")
  case True
  then have "drop n s = s ! n # s ! Suc n # drop (Suc (Suc n)) s"
    by (simp add: drop_head)
  with True show ?thesis by simp
next
  case False
  then have "length (take 2 (drop n s)) \<noteq> length [c, d]" by simp
  then have "take 2 (drop n s) \<noteq> [c, d]" by metis
  with False show ?thesis by simp
qed

lemma nat_int_plus [simp]: "nat (int n + 1) = Suc n" "nat (1 + int n) = Suc n"
  "nat (int n + 2) = n + 2" "nat (2 + int n) = n + 2"
  by simp_all

lemma byte_is_int: "0 \<le> i \<Longrightarrow> i < len s \<Longrightarrow> byte_is s i c = Some (s ! nat i = c)"
  by (simp add: byte_is_def byte_at_def)

lemma byte_isnt_int: "0 \<le> i \<Longrightarrow> i < len s \<Longrightarrow> byte_isnt s i c = Some (s ! nat i \<noteq> c)"
  by (simp add: byte_isnt_def byte_at_def)

lemma findClosingSingle_int:
  "0 \<le> i \<Longrightarrow> findClosingSingle s i c =
     Some (if c \<in> set (drop (nat i) s) then i + int (idx c (drop (nat i) s)) else - 1)"
  using findClosingSingle_nat[of s "nat i" c] by simp

lemma findClosing_int:
  "0 \<le> i \<Longrightarrow> m \<noteq> [] \<Longrightarrow> findClosing s i m =
     Some (if 0 \<le> Index (drop (nat i) s) m then i + Index (drop (nat i) s) m else - 1)"
  using findClosing_nat[of m s "nat i"] by simp

lemma skip_plain_int:
  "0 \<le> i \<Longrightarrow> skip_plain s i =
     Some (i + int (length (takeWhile (\<lambda>c. \<not> special c) (drop (nat i) s))))"
  using skip_plain_nat[of s "nat i"] by simp

lemma slice_int:
  "0 \<le> a \<Longrightarrow> a \<le> b \<Longrightarrow> b \<le> len s \<Longrightarrow>
     slice s a b = Some (take (nat (b - a)) (drop (nat a) s))"
  by (simp add: slice_def)

lemma bold_at_nat:
  assumes n: "n < length s"
  shows "bold_at s (int n) =
     Some (if take 2 (drop n s) = ''**'' \<and> 0 \<le> Index (drop (n + 2) s) ''**''
           then Some (annotated_span ''bold''
                        (take (nat (Index (drop (n + 2) s) ''**'')) (drop (n + 2) s)),
                      int (n + (nat (Index (drop (n + 2) s) ''**'') + 4)))
           else None)"
proof -
  let ?k = "Index (drop (n + 2) s) ''**''"
  have c: "and_then (Some (int n + 1 < len s))
            (and_then (byte_is s (int n) (CHR ''*'')) (byte_is s (int n + 1) (CHR ''*'')))
           = Some (take 2 (drop n s) = ''**'')"
    using n by (simp add: byte_is_int take2_drop len_def)
  have f: "findClosing s (int n + 2) ''**'' = Some (if 0 \<le> ?k then int n + 2 + ?k else - 1)"
    by (simp add: findClosing_int)
  show ?thesis
  proof (cases "0 \<le> ?k")
    case True
    then have b: "nat ?k + 2 \<le> length (drop (n + 2) s)"
      using Index_bounds[of "drop (n + 2) s" "''**''"] by simp
    then have b': "int n + 2 + ?k \<le> len s"
      using True by (simp add: len_def)
    have sl: "slice s (int n + 2) (int n + 2 + ?k) = Some (take (nat ?k) (drop (n + 2) s))"
      using True b' by (simp add: slice_int)
    show ?thesis
      unfolding bold_at_def c f using True sl by simp
  next
    case False
    then show ?thesis
      unfolding bold_at_def c f by simp
  qed
qed

lemma idx_lt: "c \<in> set t \<Longrightarrow> idx c t < length t"
  unfolding idx_def by (induction t) auto

lemma single_at_nat:
  assumes n: "n < length s"
  shows "do { e \<leftarrow> findClosingSingle s (int n + 1) c;
              if e > 0 then do {
                content \<leftarrow> slice s (int n + 1) e;
                Some (Some (annotated_span a content, e + 1))
              } else Some None } =
     Some (if c \<in> set (drop (Suc n) s)
           then Some (annotated_span a (take (idx c (drop (Suc n) s)) (drop (Suc n) s)),
                      int (n + (idx c (drop (Suc n) s) + 2)))
           else None)"
proof (cases "c \<in> set (drop (Suc n) s)")
  case True
  let ?k = "idx c (drop (Suc n) s)"
  have f: "findClosingSingle s (int n + 1) c = Some (int n + 1 + int ?k)"
    using True by (simp add: findClosingSingle_int)
  have "?k < length (drop (Suc n) s)" using True by (rule idx_lt)
  then have b: "int n + 1 + int ?k \<le> len s" by (simp add: len_def)
  have sl: "slice s (int n + 1) (int n + 1 + int ?k) = Some (take ?k (drop (Suc n) s))"
    using b by (simp add: slice_int)
  show ?thesis
    unfolding f using True sl by simp
next
  case False
  then have f: "findClosingSingle s (int n + 1) c = Some (- 1)"
    by (simp add: findClosingSingle_int)
  show ?thesis
    unfolding f using False by simp
qed

lemma italic_at_nat:
  assumes n: "n < length s"
  shows "italic_at s (int n) =
     Some (if take 1 (drop n s) = ''*'' \<and> take 2 (drop n s) \<noteq> ''**''
              \<and> CHR ''*'' \<in> set (drop (Suc n) s)
           then Some (annotated_span ''italic''
                        (take (idx (CHR ''*'') (drop (Suc n) s)) (drop (Suc n) s)),
                      int (n + (idx (CHR ''*'') (drop (Suc n) s) + 2)))
           else None)"
proof -
  have c: "and_then (byte_is s (int n) (CHR ''*''))
             (or_else (Some (int n + 1 \<ge> len s)) (byte_isnt s (int n + 1) (CHR ''*'')))
           = Some (take 1 (drop n s) = ''*'' \<and> take 2 (drop n s) \<noteq> ''**'')"
    using n by (auto simp: byte_is_int byte_isnt_int take1_drop' take2_drop len_def)
  show ?thesis
    unfolding italic_at_def c
    by (simp add: single_at_nat[OF n])
qed

lemma code_at_nat:
  assumes n: "n < length s"
  shows "code_at s (int n) =
     Some (if take 1 (drop n s) = [BQ] \<and> BQ \<in> set (drop (Suc n) s)
           then Some (annotated_span ''code''
                        (take (idx BQ (drop (Suc n) s)) (drop (Suc n) s)),
                      int (n + (idx BQ (drop (Suc n) s) + 2)))
           else None)"
proof -
  have c: "byte_is s (int n) BQ = Some (take 1 (drop n s) = [BQ])"
    using n by (simp add: byte_is_int take1_drop' len_def)
  show ?thesis
    unfolding code_at_def c
    by (simp add: single_at_nat[OF n])
qed

lemma plain_at_nat:
  assumes n: "n < length s"
  shows "plain_at s (int n) =
     Some (if special (s ! n) then (plain_span [s ! n], int (n + 1))
           else (plain_span (takeWhile (\<lambda>c. \<not> special c) (drop n s)),
                 int (n + length (takeWhile (\<lambda>c. \<not> special c) (drop n s)))))"
proof -
  let ?k = "length (takeWhile (\<lambda>c. \<not> special c) (drop n s))"
  have f: "skip_plain s (int n) = Some (int n + int ?k)"
    by (simp add: skip_plain_int)
  have d: "drop n s = s ! n # drop (Suc n) s" using n by (rule drop_head)
  show ?thesis
  proof (cases "special (s ! n)")
    case True
    then have k: "?k = 0" by (subst d) simp
    show ?thesis
      unfolding plain_at_def f k using True n by (simp add: byte_at_def len_def)
  next
    case False
    then have k: "0 < ?k" by (subst d) simp
    have "?k \<le> length (drop n s)" by (rule length_takeWhile_le)
    then have b: "int n + int ?k \<le> len s" using n by (simp add: len_def)
    have sl: "slice s (int n) (int n + int ?k) = Some (take ?k (drop n s))"
      using b by (simp add: slice_int)
    have tk: "take ?k (drop n s) = takeWhile (\<lambda>c. \<not> special c) (drop n s)"
      by (metis takeWhile_eq_take)
    show ?thesis
      unfolding plain_at_def f using False k sl tk by simp
  qed
qed

lemma link_at_nat:
  assumes n: "n < length s"
  shows "link_at s (int n) =
     Some (map_option (\<lambda>(sp, k). (span_gmap sp, int (n + k))) (link_of (drop n s)))"
proof -
  let ?t = "drop n s"
  let ?kb = "idx (CHR '']'') (drop (Suc n) s)"
  let ?u = "drop (n + ?kb + 3) s"
  let ?kp = "idx (CHR '')'') ?u"
  have t1: "drop 1 ?t = drop (Suc n) s" by simp
  have tu: "drop (?kb + 3) ?t = ?u" by (simp add: add.commute add.left_commute)
  have tp: "drop (?kb + 2) ?t = drop (n + ?kb + 2) s" by (simp add: add.commute add.left_commute)
  have c: "byte_is s (int n) (CHR ''['') = Some (take 1 ?t = ''['')"
    using n by (simp add: byte_is_int take1_drop' len_def)
  show ?thesis
  proof (cases "take 1 ?t = ''[''")
    case False
    then have "link_of ?t = None" by (simp add: link_of_def Let_def)
    then show ?thesis unfolding link_at_def c using False by simp
  next
    case br: True
    note red = Option.bind.simps if_True if_False
    show ?thesis
    proof (cases "CHR '']'' \<in> set (drop (Suc n) s)")
      case False
      then have f: "findClosingSingle s (int n + 1) (CHR '']'') = Some (- 1)"
        by (simp add: findClosingSingle_int)
      have "link_of ?t = None" using False by (simp add: link_of_def Let_def)
      then show ?thesis unfolding link_at_def c f using br by simp
    next
      case cb: True
      then have f: "findClosingSingle s (int n + 1) (CHR '']'') = Some (int n + 1 + int ?kb)"
        by (simp add: findClosingSingle_int)
      have kl: "?kb < length (drop (Suc n) s)" using cb by (rule idx_lt)
      have c2: "and_then (Some (int n + 1 + int ?kb > 0 \<and> int n + 1 + int ?kb + 1 < len s))
                  (byte_is s (int n + 1 + int ?kb + 1) (CHR ''(''))
                = Some (take 1 (drop (n + ?kb + 2) s) = ''('')"
      proof (cases "n + ?kb + 2 < length s")
        case True
        have e: "int n + 1 + int ?kb + 1 = int (n + ?kb + 2)" by simp
        have "byte_is s (int n + 1 + int ?kb + 1) (CHR ''('') = Some (s ! (n + ?kb + 2) = CHR ''('')"
          unfolding e using True by (simp add: byte_is_def byte_at_def len_def del: of_nat_add)
        then show ?thesis using True by (simp add: take1_drop' len_def)
      next
        case False
        then show ?thesis by (simp add: take1_drop' len_def)
      qed
      show ?thesis
      proof (cases "take 1 (drop (n + ?kb + 2) s) = ''(''")
        case False
        then have "link_of ?t = None"
          unfolding link_of_def Let_def t1 tp by simp
        then show ?thesis
          unfolding link_at_def c f
          apply (simp only: br red c2 False)
          apply simp
          done
      next
        case op: True
        have e2: "int n + 1 + int ?kb + 2 = int (n + ?kb + 3)" by simp
        show ?thesis
        proof (cases "CHR '')'' \<in> set ?u")
          case False
          then have g: "findClosingSingle s (int n + 1 + int ?kb + 2) (CHR '')'') = Some (- 1)"
            unfolding e2 by (simp only: findClosingSingle_nat if_False)
          have "link_of ?t = None"
            unfolding link_of_def Let_def t1 tp tu using False by simp
          then show ?thesis
            unfolding link_at_def c f
            apply (simp only: br red c2 op g)
            apply simp
            done
        next
          case cp: True
          then have g: "findClosingSingle s (int n + 1 + int ?kb + 2) (CHR '')'')
                        = Some (int (n + ?kb + 3 + ?kp))"
            unfolding e2 by (simp only: findClosingSingle_nat if_True)
          have pl: "?kp < length ?u" using cp by (rule idx_lt)
          have sl1: "slice s (int n + 1) (int n + 1 + int ?kb) = Some (take ?kb (drop (Suc n) s))"
            using kl by (simp add: slice_int len_def)
          have sl2: "slice s (int n + 1 + int ?kb + 2) (int (n + ?kb + 3 + ?kp)) = Some (take ?kp ?u)"
            unfolding e2 using pl slice_nat[of "n + ?kb + 3" "n + ?kb + 3 + ?kp" s] by simp
          have lo: "link_of ?t =
                 Some (if HasPrefix (take ?kp ?u) ''notion://'' \<and> HasPrefix (take ?kb (drop (Suc n) s)) ''@''
                       then Mention (drop 1 (take ?kb (drop (Suc n) s))) (TrimPrefix (take ?kp ?u) ''notion://'')
                       else Link (take ?kb (drop (Suc n) s)) (take ?kp ?u), ?kb + ?kp + 4)"
            unfolding link_of_def Let_def t1 tp tu using br cb op cp by simp
          show ?thesis
            unfolding link_at_def c f lo
            apply (simp only: br red c2 op g sl1 sl2)
            apply simp
            done
        qed
      qed
    qed
  qed
qed

lemma link_of_take1: "link_of t = Some r \<Longrightarrow> take 1 t = ''[''"
  by (simp add: link_of_def Let_def split: if_splits)

lemma scan_step_nat:
  assumes n: "n < length s"
  shows "scan_step s (int n) =
           Some (span_gmap (fst (step_of (drop n s))), int (n + snd (step_of (drop n s))))"
proof -
  let ?t = "drop n s"
  have t2: "drop 2 ?t = drop (n + 2) s" by (simp add: add.commute)
  have t1: "drop 1 ?t = drop (Suc n) s" by simp
  have hd: "hd ?t = s ! n" using n by (simp add: hd_drop_conv_nth)
  note red = Option.bind.simps option.case if_True if_False
  consider (bold) "take 2 ?t = ''**'' \<and> 0 \<le> Index (drop (n + 2) s) ''**''"
    | (italic) "\<not> (take 2 ?t = ''**'' \<and> 0 \<le> Index (drop (n + 2) s) ''**'')"
        "take 1 ?t = ''*'' \<and> take 2 ?t \<noteq> ''**'' \<and> CHR ''*'' \<in> set (drop (Suc n) s)"
    | (code) "\<not> (take 2 ?t = ''**'' \<and> 0 \<le> Index (drop (n + 2) s) ''**'')"
        "\<not> (take 1 ?t = ''*'' \<and> take 2 ?t \<noteq> ''**'' \<and> CHR ''*'' \<in> set (drop (Suc n) s))"
        "take 1 ?t = [BQ] \<and> BQ \<in> set (drop (Suc n) s)"
    | (other) "\<not> (take 2 ?t = ''**'' \<and> 0 \<le> Index (drop (n + 2) s) ''**'')"
        "\<not> (take 1 ?t = ''*'' \<and> take 2 ?t \<noteq> ''**'' \<and> CHR ''*'' \<in> set (drop (Suc n) s))"
        "\<not> (take 1 ?t = [BQ] \<and> BQ \<in> set (drop (Suc n) s))"
    by blast
  then show ?thesis
  proof cases
    case bold
    then show ?thesis
      unfolding scan_step_def bold_at_nat[OF n] step_of_def t2
      by (simp only: red) simp
  next
    case italic
    then show ?thesis
      unfolding scan_step_def bold_at_nat[OF n] italic_at_nat[OF n] step_of_def t2 t1
      by (simp only: red) simp
  next
    case code
    then show ?thesis
      unfolding scan_step_def bold_at_nat[OF n] italic_at_nat[OF n] code_at_nat[OF n]
        step_of_def t2 t1
      by (simp only: red) simp
  next
    case other
    show ?thesis
    proof (cases "link_of ?t")
      case None
      with other show ?thesis
        unfolding scan_step_def bold_at_nat[OF n] italic_at_nat[OF n] code_at_nat[OF n]
          link_at_nat[OF n] plain_at_nat[OF n] step_of_def t2 t1 hd
        by (simp only: red option.map) simp
    next
      case (Some r)
      with other show ?thesis
        unfolding scan_step_def bold_at_nat[OF n] italic_at_nat[OF n] code_at_nat[OF n]
          link_at_nat[OF n] step_of_def t2 t1
        by (simp only: red option.map) (simp add: case_prod_beta)
    qed
  qed
qed

lemma Index_found: "0 \<le> Index x m \<Longrightarrow> HasPrefix (drop (nat (Index x m)) x) m"
proof (induction x)
  case Nil
  then show ?case by (simp add: HasPrefix_def split: if_splits)
next
  case (Cons c cs)
  show ?case
  proof (cases "HasPrefix (c # cs) m")
    case True
    then show ?thesis by simp
  next
    case False
    with Cons.prems have r: "0 \<le> Index cs m" "Index (c # cs) m = Index cs m + 1"
      by (auto simp: Let_def split: if_splits)
    then have "nat (Index (c # cs) m) = Suc (nat (Index cs m))" by simp
    with Cons.IH[OF r(1)] show ?thesis by simp
  qed
qed

lemma idx_nth: "c \<in> set x \<Longrightarrow> x ! idx c x = c"
  unfolding idx_def by (induction x) auto

lemma take_idx_Suc: "c \<in> set x \<Longrightarrow> take (Suc (idx c x)) x = take (idx c x) x @ [c]"
  using idx_lt[of c x] idx_nth[of c x] by (simp add: take_Suc_conv_app_nth)

lemma take_split2: "take (a + b) t = take a t @ take b (drop a t)"
  by (simp add: take_add)

lemma Index_nat: "0 \<le> Index x m \<Longrightarrow> \<exists>k. Index x m = int k"
  by (metis nat_0_le)

lemma step_bold:
  "Index x ''**'' = int k \<Longrightarrow> step_of (CHR ''*'' # CHR ''*'' # x) = (Bold (take k x), k + 4)"
  by (simp add: step_of_def)

lemma step_star_literal2:
  "Index x ''**'' < 0 \<Longrightarrow> step_of (CHR ''*'' # CHR ''*'' # x) = (Plain ''*'', 1)"
  by (simp add: step_of_def link_of_def special_def)

lemma step_italic:
  "x = [] \<or> hd x \<noteq> CHR ''*'' \<Longrightarrow> CHR ''*'' \<in> set x \<Longrightarrow>
     step_of (CHR ''*'' # x) = (Italic (take (idx (CHR ''*'') x) x), idx (CHR ''*'') x + 2)"
  by (cases x) (simp_all add: step_of_def)

lemma step_star_literal1:
  "x = [] \<or> hd x \<noteq> CHR ''*'' \<Longrightarrow> CHR ''*'' \<notin> set x \<Longrightarrow>
     step_of (CHR ''*'' # x) = (Plain ''*'', 1)"
  by (cases x) (simp_all add: step_of_def link_of_def special_def)

lemma step_code:
  "BQ \<in> set x \<Longrightarrow> step_of (BQ # x) = (Code (take (idx BQ x) x), idx BQ x + 2)"
  by (simp add: step_of_def)

lemma step_code_literal:
  "BQ \<notin> set x \<Longrightarrow> step_of (BQ # x) = (Plain [BQ], 1)"
  by (simp add: step_of_def link_of_def special_def)

lemma step_link:
  "link_of (CHR ''['' # x) = Some r \<Longrightarrow> step_of (CHR ''['' # x) = r"
  by (simp add: step_of_def)

lemma step_link_literal:
  "link_of (CHR ''['' # x) = None \<Longrightarrow> step_of (CHR ''['' # x) = (Plain ''['', 1)"
  by (simp add: step_of_def special_def)

lemma step_run:
  "\<not> special c \<Longrightarrow>
     step_of (c # x) = (Plain (c # takeWhile (\<lambda>c. \<not> special c) x),
                        Suc (length (takeWhile (\<lambda>c. \<not> special c) x)))"
  by (simp add: step_of_def link_of_def special_def)

text \<open>The shape of a link: the first closing bracket after the opening one is followed by
  an opening parenthesis, and a closing parenthesis comes later.\<close>

lemma split_at_idx: "c \<in> set x \<Longrightarrow> x = take (idx c x) x @ c # drop (Suc (idx c x)) x"
  by (metis id_take_nth_drop idx_lt idx_nth)

lemma idx_append: "c \<notin> set a \<Longrightarrow> idx c (a @ c # b) = length a"
  unfolding idx_def by (induction a) auto

lemma take_idx_notin: "c \<notin> set (take (idx c x) x)"
  unfolding idx_def by (induction x) auto

lemma link_of_Some:
  assumes "link_of (CHR ''['' # x) = Some r"
  obtains lt lu rest where "x = lt @ '']('' @ lu @ '')'' @ rest"
    "CHR '']'' \<notin> set lt" "CHR '')'' \<notin> set lu"
    "r = (if HasPrefix lu ''notion://'' \<and> HasPrefix lt ''@''
          then Mention (drop 1 lt) (TrimPrefix lu ''notion://'') else Link lt lu,
          length lt + length lu + 4)"
proof -
  let ?kb = "idx (CHR '']'') x"
  let ?u = "drop (Suc (Suc ?kb)) x"
  let ?kp = "idx (CHR '')'') ?u"
  have d3: "drop (?kb + 3) (CHR ''['' # x) = ?u"
    by (simp add: numeral_3_eq_3 numeral_2_eq_2)
  have d2: "drop (?kb + 2) (CHR ''['' # x) = drop (Suc ?kb) x"
    by (simp add: numeral_2_eq_2)
  from assms have c: "CHR '']'' \<in> set x" "take 1 (drop (Suc ?kb) x) = ''(''" "CHR '')'' \<in> set ?u"
    and r: "r = (if HasPrefix (take ?kp ?u) ''notion://'' \<and> HasPrefix (take ?kb x) ''@''
          then Mention (drop 1 (take ?kb x)) (TrimPrefix (take ?kp ?u) ''notion://'')
          else Link (take ?kb x) (take ?kp ?u), ?kb + ?kp + 4)"
    by (simp_all add: link_of_def Let_def d3 d2 split: if_splits) auto
  have x1: "x = take ?kb x @ CHR '']'' # drop (Suc ?kb) x"
    using c(1) by (rule split_at_idx)
  have "drop (Suc ?kb) x = take 1 (drop (Suc ?kb) x) @ drop 1 (drop (Suc ?kb) x)"
    by (metis append_take_drop_id)
  then have x2: "drop (Suc ?kb) x = CHR ''('' # ?u"
    using c(2) by simp
  have x3: "?u = take ?kp ?u @ CHR '')'' # drop (Suc ?kp) ?u"
    using c(3) by (rule split_at_idx)
  have "take ?kb x @ '']('' @ take ?kp ?u @ '')'' @ drop (Suc ?kp) ?u
          = take ?kb x @ CHR '']'' # CHR ''('' # (take ?kp ?u @ CHR '')'' # drop (Suc ?kp) ?u)"
    by simp
  also have "\<dots> = take ?kb x @ CHR '']'' # CHR ''('' # ?u"
    by (simp only: x3[symmetric])
  also have "\<dots> = take ?kb x @ CHR '']'' # drop (Suc ?kb) x"
    by (simp only: x2)
  also have "\<dots> = x" by (rule x1[symmetric])
  finally have xeq: "x = take ?kb x @ '']('' @ take ?kp ?u @ '')'' @ drop (Suc ?kp) ?u"
    by (rule sym)
  have n1: "CHR '']'' \<notin> set (take ?kb x)" and n2: "CHR '')'' \<notin> set (take ?kp ?u)"
    by (rule take_idx_notin)+
  have l1: "length (take ?kb x) = ?kb" using idx_lt[OF c(1)] by simp
  have l2: "length (take ?kp ?u) = ?kp" using idx_lt[OF c(3)] by simp
  show ?thesis
    by (rule that[OF xeq n1 n2]) (simp only: r l1 l2)
qed

lemma Index_split:
  assumes "Index x m = int k"
  shows "x = take k x @ m @ drop (k + length m) x"
proof -
  have "HasPrefix (drop k x) m" using Index_found[of x m] assms by simp
  then have "drop k x = m @ drop (length m) (drop k x)"
    by (metis HasPrefix_def append_take_drop_id)
  then have "drop k x = m @ drop (k + length m) x" by (simp add: add.commute)
  then show ?thesis by (metis append_take_drop_id)
qed

lemma mention_source:
  assumes "HasPrefix lu ''notion://''" "HasPrefix lt ''@''"
  shows "span_source (Mention (drop 1 lt) (TrimPrefix lu ''notion://'')) = ''['' @ lt @ '']('' @ lu @ '')''"
proof -
  have "take 1 lt = ''@''" using assms(2) by (simp add: HasPrefix_def)
  then have a: "lt = CHR ''@'' # drop 1 lt"
    by (metis append_Cons append_Nil append_take_drop_id)
  have "take (length ''notion://'') lu = ''notion://''" using assms(1) by (simp only: HasPrefix_def)
  then have "lu = ''notion://'' @ drop (length ''notion://'') lu"
    by (metis append_take_drop_id)
  then have b: "lu = ''notion://'' @ TrimPrefix lu ''notion://''"
    using assms(1) by (simp only: TrimPrefix_def if_True)
  have "''['' @ lt @ '']('' @ lu @ '')'' = ''['' @ (CHR ''@'' # drop 1 lt) @ '']('' @ (''notion://'' @ TrimPrefix lu ''notion://'') @ '')''"
    using a b by (metis (no_types))
  then show ?thesis by simp
qed

lemma step_of_decomp:
  assumes "t \<noteq> []"
  shows "\<exists>rest. t = span_source (fst (step_of t)) @ rest
           \<and> snd (step_of t) = length (span_source (fst (step_of t)))
           \<and> 0 < snd (step_of t)"
proof -
  from assms obtain c x where t: "t = c # x" by (cases t) auto
  consider (star2) x' where "c = CHR ''*''" "x = CHR ''*'' # x'"
    | (star1) "c = CHR ''*''" "x = [] \<or> hd x \<noteq> CHR ''*''"
    | (bq) "c = BQ" | (br) "c = CHR ''[''" | (run) "\<not> special c"
    by (cases x) (auto simp: special_def)
  then show ?thesis
  proof cases
    case star2
    then have t2: "t = CHR ''*'' # CHR ''*'' # x'" using t by simp
    show ?thesis
    proof (cases "0 \<le> Index x' ''**''")
      case True
      then obtain k where k: "Index x' ''**'' = int k" using Index_nat by blast
      have "x' = take k x' @ ''**'' @ drop (k + 2) x'"
        using Index_split[OF k] by simp
      then have "t = (''**'' @ take k x' @ ''**'') @ drop (k + 2) x'"
        unfolding t2 by simp
      moreover have "k + 2 \<le> length x'"
        using Index_bounds[of x' "''**''"] k by simp
      ultimately show ?thesis
        unfolding t2 step_bold[OF k] by (simp del: append.simps)
    next
      case False
      then show ?thesis unfolding t2 by (simp add: step_star_literal2)
    qed
  next
    case star1
    show ?thesis
    proof (cases "CHR ''*'' \<in> set x")
      case True
      have "x = take (idx (CHR ''*'') x) x @ CHR ''*'' # drop (Suc (idx (CHR ''*'') x)) x"
        using True by (rule split_at_idx)
      then have "t = (''*'' @ take (idx (CHR ''*'') x) x @ ''*'') @ drop (Suc (idx (CHR ''*'') x)) x"
        unfolding t star1(1) by simp
      moreover have "idx (CHR ''*'') x < length x" using True by (rule idx_lt)
      ultimately show ?thesis
        unfolding t star1(1) step_italic[OF star1(2) True] by (simp del: append.simps)
    next
      case False
      then show ?thesis unfolding t star1(1) by (simp add: step_star_literal1[OF star1(2)])
    qed
  next
    case bq
    show ?thesis
    proof (cases "BQ \<in> set x")
      case True
      have "x = take (idx BQ x) x @ BQ # drop (Suc (idx BQ x)) x"
        using True by (rule split_at_idx)
      then have "t = ([BQ] @ take (idx BQ x) x @ [BQ]) @ drop (Suc (idx BQ x)) x"
        unfolding t bq by simp
      moreover have "idx BQ x < length x" using True by (rule idx_lt)
      ultimately show ?thesis
        unfolding t bq step_code[OF True] by (simp del: append.simps)
    next
      case False
      then show ?thesis unfolding t bq by (simp add: step_code_literal)
    qed
  next
    case br
    show ?thesis
    proof (cases "link_of (CHR ''['' # x)")
      case None
      then show ?thesis unfolding t br by (simp add: step_link_literal)
    next
      case (Some r)
      then obtain lt lu rest where x: "x = lt @ '']('' @ lu @ '')'' @ rest"
        and r: "r = (if HasPrefix lu ''notion://'' \<and> HasPrefix lt ''@''
          then Mention (drop 1 lt) (TrimPrefix lu ''notion://'') else Link lt lu,
          length lt + length lu + 4)"
        by (rule link_of_Some)
      have src: "span_source (fst r) = ''['' @ lt @ '']('' @ lu @ '')''"
        unfolding r using mention_source[of lu lt] by simp
      have "t = (''['' @ lt @ '']('' @ lu @ '')'') @ rest"
        unfolding t br x by simp
      then show ?thesis
        unfolding step_link[OF Some, folded br t] src
        by (auto simp: r)
    qed
  next
    case run
    have "x = takeWhile (\<lambda>c. \<not> special c) x @ dropWhile (\<lambda>c. \<not> special c) x" by simp
    then have "t = (c # takeWhile (\<lambda>c. \<not> special c) x) @ dropWhile (\<lambda>c. \<not> special c) x"
      unfolding t by simp
    then show ?thesis
      unfolding t step_run[OF run] by (simp del: takeWhile_dropWhile_id) blast
  qed
qed

lemma step_of_take:
  assumes "t \<noteq> []"
  shows "span_source (fst (step_of t)) = take (snd (step_of t)) t"
proof -
  obtain rest where "t = span_source (fst (step_of t)) @ rest"
    "snd (step_of t) = length (span_source (fst (step_of t)))"
    using step_of_decomp[OF assms] by blast
  then show ?thesis by (metis append_eq_conv_conj)
qed

lemma step_of_bounds:
  assumes "t \<noteq> []"
  shows "0 < snd (step_of t) \<and> snd (step_of t) \<le> length t"
proof -
  obtain rest where "t = span_source (fst (step_of t)) @ rest"
    "snd (step_of t) = length (span_source (fst (step_of t)))" "0 < snd (step_of t)"
    using step_of_decomp[OF assms] by blast
  then show ?thesis by (metis length_append le_add1)
qed

function shapes_of :: "string \<Rightarrow> span list" where
  "shapes_of t = (if t = [] then [] else fst (step_of t) # shapes_of (drop (snd (step_of t)) t))"
  by pat_completeness auto
termination
proof (relation "measure length")
  show "wf (measure length)" by simp
next
  fix t :: string
  assume "t \<noteq> []"
  then show "(drop (snd (step_of t)) t, t) \<in> measure length"
    using step_of_bounds[of t] by simp
qed

declare shapes_of.simps [simp del]

lemma shapes_of_source: "concat (map span_source (shapes_of t)) = t"
proof (induction t rule: shapes_of.induct)
  case (1 t)
  show ?case
  proof (cases "t = []")
    case True
    then show ?thesis by (subst shapes_of.simps) simp
  next
    case False
    then show ?thesis
      using 1 step_of_take[OF False]
      by (subst shapes_of.simps) simp
  qed
qed

lemma scan_from_nat:
  "n \<le> length s \<Longrightarrow> scan_from s (int n) = Some (map span_gmap (shapes_of (drop n s)))"
proof (induction "length s - n" arbitrary: n rule: less_induct)
  case less
  show ?case
  proof (cases "n = length s")
    case True
    then show ?thesis
      by (subst scan_from.simps, subst shapes_of.simps) (simp add: len_def)
  next
    case False
    with less.prems have n: "n < length s" by simp
    let ?t = "drop n s"
    let ?k = "snd (step_of ?t)"
    have t: "?t \<noteq> []" using n by simp
    have b: "0 < ?k" "?k \<le> length ?t" using step_of_bounds[OF t] by simp_all
    then have "n + ?k \<le> length s" "length s - (n + ?k) < length s - n"
      using n by simp_all
    then have ih: "scan_from s (int (n + ?k)) = Some (map span_gmap (shapes_of (drop (n + ?k) s)))"
      using less.hyps by blast
    have d: "drop ?k ?t = drop (n + ?k) s" by (simp add: add.commute)
    show ?thesis
      using n t
      by (subst scan_from.simps, subst shapes_of.simps)
         (simp add: len_def scan_step_nat[OF n] ih add.commute del: of_nat_add)
  qed
qed

lemma shapes_of_Nil: "shapes_of t = [] \<longleftrightarrow> t = []"
  by (subst shapes_of.simps) simp

lemma parseInlineMarkdown_eq:
  "parseInlineMarkdown t =
     Some (if t = [] then [plain_span []] else map span_gmap (shapes_of t))"
  using scan_from_nat[of 0 t] by (simp add: parseInlineMarkdown_def shapes_of_Nil)

section \<open>The inline decoder is total and covers its input\<close>

lemmas shapes_eval =
  shapes_of.simps step_of_def link_of_def special_def idx_def HasPrefix_def TrimPrefix_def Let_def

lemmas span_defs = plain_span_def annotated_span_def link_span_def mention_span_def

lemma span_gmap_inj:
  assumes "span_gmap a = span_gmap b"
  shows "a = b \<or> (\<exists>title title' pageID. a = Mention title pageID \<and> b = Mention title' pageID)"
  using assms by (cases a; cases b) (simp_all add: span_defs)

lemma shapes_of_Cons:
  "shapes_of (c # x) = fst (step_of (c # x)) # shapes_of (drop (snd (step_of (c # x))) (c # x))"
  by (subst shapes_of.simps) simp

lemma parse_literal:
  assumes "step_of (c # x) = (Plain [c], 1)" "x \<noteq> []"
  shows "parseInlineMarkdown (c # x) = map_option ((#) (plain_span [c])) (parseInlineMarkdown x)"
  using assms by (simp add: parseInlineMarkdown_eq shapes_of_Cons)

lemma parse_star_literal:
  assumes "CHR ''*'' \<notin> set x" "x \<noteq> []"
  shows "parseInlineMarkdown (CHR ''*'' # x) =
           map_option ((#) (plain_span ''*'')) (parseInlineMarkdown x)"
proof -
  have "x = [] \<or> hd x \<noteq> CHR ''*''" using assms by (cases x) auto
  then have "step_of (CHR ''*'' # x) = (Plain ''*'', 1)"
    using assms(1) by (rule step_star_literal1)
  then show ?thesis using assms(2) by (rule parse_literal)
qed

lemma parse_star2_literal:
  assumes "Index x ''**'' < 0"
  shows "parseInlineMarkdown (CHR ''*'' # CHR ''*'' # x) =
           map_option ((#) (plain_span ''*'')) (parseInlineMarkdown (CHR ''*'' # x))"
  using step_star_literal2[OF assms] by (rule parse_literal) simp

lemma parse_code_literal:
  assumes "BQ \<notin> set x" "x \<noteq> []"
  shows "parseInlineMarkdown (BQ # x) = map_option ((#) (plain_span [BQ])) (parseInlineMarkdown x)"
  using step_code_literal[OF assms(1)] assms(2) by (rule parse_literal)

lemma parse_bracket_literal:
  assumes "CHR '']'' \<notin> set x" "x \<noteq> []"
  shows "parseInlineMarkdown (CHR ''['' # x) =
           map_option ((#) (plain_span ''['')) (parseInlineMarkdown x)"
proof -
  have "link_of (CHR ''['' # x) = None" using assms(1) by (simp add: link_of_def Let_def)
  then have "step_of (CHR ''['' # x) = (Plain ''['', 1)" by (rule step_link_literal)
  then show ?thesis using assms(2) by (rule parse_literal)
qed

text \<open>
  C4, as the code has it.  For every text the inline decoder returns (it never panics,
  and every loop is a terminating function): the result is the list of spans of
  \<open>shapes_of\<close>, or the single empty text span for the empty text.  The markup the spans
  were read from, concatenated in order, is the text, so every byte belongs to exactly
  one span.  The map built for a span determines the span, but for the title of a page
  mention: of \<open>[@Title](notion://id)\<close> only the id is returned.  An opening \<open>*\<close>, backquote
  or \<open>[\<close> with no closing character after it, and an opening \<open>**\<close> with no closing \<open>**\<close>,
  becomes a text span of that one character, and decoding goes on behind it.
\<close>

theorem C4_inline_decoder_total:
  "parseInlineMarkdown t =
     Some (if t = [] then [plain_span []] else map span_gmap (shapes_of t))
   \<and> concat (map span_source (shapes_of t)) = t
   \<and> (span_gmap a = span_gmap b \<longrightarrow>
        a = b \<or> (\<exists>title title' pageID. a = Mention title pageID \<and> b = Mention title' pageID))
   \<and> (CHR ''*'' \<notin> set x \<and> x \<noteq> [] \<longrightarrow>
        parseInlineMarkdown (CHR ''*'' # x) =
          map_option ((#) (plain_span ''*'')) (parseInlineMarkdown x))
   \<and> (Index x ''**'' < 0 \<longrightarrow>
        parseInlineMarkdown (CHR ''*'' # CHR ''*'' # x) =
          map_option ((#) (plain_span ''*'')) (parseInlineMarkdown (CHR ''*'' # x)))
   \<and> (BQ \<notin> set x \<and> x \<noteq> [] \<longrightarrow>
        parseInlineMarkdown (BQ # x) = map_option ((#) (plain_span [BQ])) (parseInlineMarkdown x))
   \<and> (CHR '']'' \<notin> set x \<and> x \<noteq> [] \<longrightarrow>
        parseInlineMarkdown (CHR ''['' # x) =
          map_option ((#) (plain_span ''['')) (parseInlineMarkdown x))"
proof (intro conjI impI)
  show "parseInlineMarkdown t =
     Some (if t = [] then [plain_span []] else map span_gmap (shapes_of t))"
    by (rule parseInlineMarkdown_eq)
  show "concat (map span_source (shapes_of t)) = t"
    by (rule shapes_of_source)
  show "a = b \<or> (\<exists>title title' pageID. a = Mention title pageID \<and> b = Mention title' pageID)"
    if "span_gmap a = span_gmap b"
    using that by (rule span_gmap_inj)
  show "parseInlineMarkdown (CHR ''*'' # x) =
          map_option ((#) (plain_span ''*'')) (parseInlineMarkdown x)"
    if "CHR ''*'' \<notin> set x \<and> x \<noteq> []"
    using that by (simp add: parse_star_literal)
  show "parseInlineMarkdown (CHR ''*'' # CHR ''*'' # x) =
          map_option ((#) (plain_span ''*'')) (parseInlineMarkdown (CHR ''*'' # x))"
    if "Index x ''**'' < 0"
    using that by (rule parse_star2_literal)
  show "parseInlineMarkdown (BQ # x) = map_option ((#) (plain_span [BQ])) (parseInlineMarkdown x)"
    if "BQ \<notin> set x \<and> x \<noteq> []"
    using that by (simp add: parse_code_literal)
  show "parseInlineMarkdown (CHR ''['' # x) =
          map_option ((#) (plain_span ''['')) (parseInlineMarkdown x)"
    if "CHR '']'' \<notin> set x \<and> x \<noteq> []"
    using that by (simp add: parse_bracket_literal)
qed

theorem C4_inline_decoder_witness:
  "parseInlineMarkdown ''[a'' = Some [plain_span ''['', plain_span ''a'']
   \<and> parseInlineMarkdown ''a'' = Some [plain_span ''a'']
   \<and> concat (map span_source (shapes_of ''a*b'')) = ''a*b''"
proof -
  note inst = C4_inline_decoder_total[of "''a''" "Plain []" "Plain []" "''a''"]
  note c = conjunct1 conjunct2
  have p: "parseInlineMarkdown ''a'' = Some [plain_span ''a'']"
    using inst[THEN c(1)] by (simp add: shapes_eval)
  have h: "CHR '']'' \<notin> set ''a'' \<and> ''a'' \<noteq> []" by simp
  have q: "parseInlineMarkdown ''[a'' = Some [plain_span ''['', plain_span ''a'']"
    using inst[THEN c(2), THEN c(2), THEN c(2), THEN c(2), THEN c(2), THEN c(2), THEN mp, OF h]
    by (simp add: p)
  have r: "concat (map span_source (shapes_of ''a*b'')) = ''a*b''"
    by (rule C4_inline_decoder_total[of "''a*b''" "Plain []" "Plain []" "[]", THEN c(2), THEN c(1)])
  from q p r show ?thesis by (intro conjI)
qed

text \<open>
  C4 as stated fails: two texts that differ in the title of a page mention decode to the
  same span, which holds the page id alone.  The title is in no returned span.
\<close>

theorem C4_mention_title_dropped:
  "parseInlineMarkdown ''[@A](notion://x)'' = Some [mention_span ''x'']
   \<and> parseInlineMarkdown ''[@B](notion://x)'' = Some [mention_span ''x'']"
  by (simp add: parseInlineMarkdown_eq shapes_eval)

section \<open>Lemmas: the decoders as total functions\<close>

text \<open>The value of the inline decoder, which never panics.\<close>

definition inline_spans :: "string \<Rightarrow> gmap list" where
  "inline_spans t = (if t = [] then [plain_span []] else map span_gmap (shapes_of t))"

lemma parseInlineMarkdown_Some: "parseInlineMarkdown t = Some (inline_spans t)"
  by (simp add: parseInlineMarkdown_eq inline_spans_def)

lemma mapM_Some: "(\<And>x. f x = Some (g x)) \<Longrightarrow> mapM f xs = Some (map g xs)"
  by (induction xs) simp_all

lemma Split_nonempty: "Split s c \<noteq> []"
  by (induction s) (auto split: list.splits)

lemma parseCells_nonempty: "0 < length (parseCells row)"
  by (simp add: parseCells_def Let_def Split_nonempty)

lemma parseCells_not_Nil: "parseCells row \<noteq> []"
  using parseCells_nonempty[of row] by simp

lemma dataRows_eq: "dataRows rows = map parseCells (filter (\<lambda>r. \<not> isSeparator r) rows)"
  by (induction rows) (simp_all add: Let_def parseCells_not_Nil)

definition table_of :: "string list list \<Rightarrow> gmap" where
  "table_of drs =
     table_block (length (hd drs))
       (map (\<lambda>cells. table_row_block (map inline_spans (pad_cells (length (hd drs)) cells))) drs)"

lemma parseMarkdownTable_eq:
  "parseMarkdownTable rows =
     Some (if length rows < 2 \<or> dataRows rows = [] then None else Some (table_of (dataRows rows)))"
proof -
  have m: "mapM (\<lambda>cells. do {
                    notionCells \<leftarrow> mapM parseInlineMarkdown (pad_cells w cells);
                    Some (table_row_block notionCells) }) drs
           = Some (map (\<lambda>cells. table_row_block (map inline_spans (pad_cells w cells))) drs)"
    for w drs
    by (rule mapM_Some) (simp add: mapM_Some[of parseInlineMarkdown inline_spans] parseInlineMarkdown_Some)
  show ?thesis
    by (simp add: parseMarkdownTable_def Let_def m table_of_def hd_conv_nth)
qed

lemma length_pad_cells: "length (pad_cells w cells) = w"
  by (simp add: pad_cells_def)

lemma pad_cells_short: "length cells \<le> w \<Longrightarrow> pad_cells w cells = cells @ replicate (w - length cells) []"
  by (simp add: pad_cells_def)

lemma MarkdownToBlocks_lines_total: "\<exists>bs. MarkdownToBlocks_lines u ls = Some bs"
proof (induction "length ls" arbitrary: ls rule: less_induct)
  case less
  show ?case
  proof (cases ls)
    case Nil
    then show ?thesis by (simp add: MarkdownToBlocks_lines.simps)
  next
    case (Cons line rest)
    have "length (dropWhile (\<lambda>l. \<not> is_fence l) rest) \<le> length rest"
      "length (dropWhile starts_bar rest) \<le> length rest"
      by (rule length_dropWhile_le)+
    then obtain b1 b2 b3 where
      "MarkdownToBlocks_lines u rest = Some b1"
      "MarkdownToBlocks_lines u (drop 1 (dropWhile (\<lambda>l. \<not> is_fence l) rest)) = Some b2"
      "MarkdownToBlocks_lines u (dropWhile starts_bar rest) = Some b3"
      using less[of rest] less[of "drop 1 (dropWhile (\<lambda>l. \<not> is_fence l) rest)"]
        less[of "dropWhile starts_bar rest"] Cons
      by (metis (no_types, lifting) drop_all impossible_Cons length_Cons length_drop less_Suc_eq_le
          diff_le_self le_trans linorder_le_less_linear)
    then show ?thesis
      unfolding Cons
      by (subst MarkdownToBlocks_lines.simps)
         (simp add: parseInlineMarkdown_Some parseMarkdownTable_eq)
  qed
qed

definition decode_lines :: "(string \<Rightarrow> string) \<Rightarrow> string list \<Rightarrow> gmap list" where
  "decode_lines u ls = the (MarkdownToBlocks_lines u ls)"

lemma MarkdownToBlocks_lines_Some: "MarkdownToBlocks_lines u ls = Some (decode_lines u ls)"
  using MarkdownToBlocks_lines_total[of u ls] by (auto simp: decode_lines_def)

lemma MarkdownToBlocks_Some: "MarkdownToBlocks u m = Some (decode_lines u (splitLines m))"
  by (simp add: MarkdownToBlocks_def MarkdownToBlocks_lines_Some)

section \<open>Tables\<close>

lemmas table_eval =
  parseMarkdownTable_eq dataRows.simps isSeparator_def parseCells_def table_of_def pad_cells_def
  inline_spans_def Let_def

lemmas decode_eval =
  MarkdownToBlocks_def splitLines_def MarkdownToBlocks_lines.simps is_child_page_marker_def
  is_fence_def starts_bar_def is_digit_def find_dot.simps parseInlineMarkdown_Some

lemma table_example:
  "MarkdownToBlocks u (''| Name | Status |'' @ [NL] @ ''| --- | --- |'' @ [NL] @ ''| Task 1 | Done |'') =
     Some [table_block 2
             [table_row_block [[plain_span ''Name''], [plain_span ''Status'']],
              table_row_block [[plain_span ''Task 1''], [plain_span ''Done'']]]]"
  by (simp add: decode_eval table_eval trim_eval shapes_eval numeral_2_eq_2)

lemma header_only_table:
  "MarkdownToBlocks u (''| a |'' @ [NL] @ ''| --- |'') =
     Some [table_block 1 [table_row_block [[plain_span ''a'']]]]"
  by (simp add: decode_eval table_eval trim_eval shapes_eval)

text \<open>
  C6, as the code has it.  The three-line example decodes to one table block of width 2
  with the header row \<open>Name\<close>, \<open>Status\<close> and the data row \<open>Task 1\<close>, \<open>Done\<close>.  For every
  list of table lines the decoder returns without a panic; the rows it keeps are the
  cells of the lines that are not separators (a separator is a line of bars, dashes,
  colons and spaces with at least one dash).  When a table is produced it has at least
  one row, the first kept row gives the column count, and every row is that first-row
  count of cells: longer rows are cut, shorter rows are padded on the right with empty
  cells.  The first row is the header row; nothing requires a row after it.
\<close>

theorem C6_table_decode:
  "MarkdownToBlocks u (''| Name | Status |'' @ [NL] @ ''| --- | --- |'' @ [NL] @ ''| Task 1 | Done |'') =
     Some [table_block 2
             [table_row_block [[plain_span ''Name''], [plain_span ''Status'']],
              table_row_block [[plain_span ''Task 1''], [plain_span ''Done'']]]]
   \<and> dataRows rows = map parseCells (filter (\<lambda>r. \<not> isSeparator r) rows)
   \<and> parseMarkdownTable rows =
       Some (if length rows < 2 \<or> dataRows rows = [] then None
             else Some (table_block (length (hd (dataRows rows)))
                    (map (\<lambda>cells. table_row_block
                            (map inline_spans (pad_cells (length (hd (dataRows rows))) cells)))
                       (dataRows rows))))
   \<and> 0 < length (parseCells row)
   \<and> length (pad_cells w cells) = w
   \<and> (length cells \<le> w \<longrightarrow> pad_cells w cells = cells @ replicate (w - length cells) [])"
proof (intro conjI impI)
  show "MarkdownToBlocks u (''| Name | Status |'' @ [NL] @ ''| --- | --- |'' @ [NL] @ ''| Task 1 | Done |'') =
     Some [table_block 2
             [table_row_block [[plain_span ''Name''], [plain_span ''Status'']],
              table_row_block [[plain_span ''Task 1''], [plain_span ''Done'']]]]"
    by (rule table_example)
  show "dataRows rows = map parseCells (filter (\<lambda>r. \<not> isSeparator r) rows)"
    by (rule dataRows_eq)
  show "parseMarkdownTable rows =
       Some (if length rows < 2 \<or> dataRows rows = [] then None
             else Some (table_block (length (hd (dataRows rows)))
                    (map (\<lambda>cells. table_row_block
                            (map inline_spans (pad_cells (length (hd (dataRows rows))) cells)))
                       (dataRows rows))))"
    by (simp add: parseMarkdownTable_eq table_of_def)
  show "0 < length (parseCells row)" by (rule parseCells_nonempty)
  show "length (pad_cells w cells) = w" by (rule length_pad_cells)
  show "pad_cells w cells = cells @ replicate (w - length cells) []" if "length cells \<le> w"
    using that by (rule pad_cells_short)
qed

theorem C6_table_witness:
  "pad_cells 3 [''a''] = [''a'', [], []]
   \<and> parseMarkdownTable [''| a | b |'', ''| c |''] =
       Some (Some (table_block 2
         [table_row_block [[plain_span ''a''], [plain_span ''b'']],
          table_row_block [[plain_span ''c''], [plain_span []]]]))"
proof -
  note c = conjunct1 conjunct2
  note inst = C6_table_decode[of "\<lambda>s. s" "[''| a | b |'', ''| c |'']" "[]" 3 "[''a'']"]
  have h: "length [''a''] \<le> (3::nat)" by simp
  have p: "pad_cells 3 [''a''] = [''a''] @ replicate (3 - length [''a'']) []"
    by (rule inst[THEN c(2), THEN c(2), THEN c(2), THEN c(2), THEN c(2), THEN mp, OF h])
  have q: "parseMarkdownTable [''| a | b |'', ''| c |''] =
       Some (Some (table_block 2
         [table_row_block [[plain_span ''a''], [plain_span ''b'']],
          table_row_block [[plain_span ''c''], [plain_span []]]]))"
    using inst[THEN c(2), THEN c(2), THEN c(1)]
    by (simp add: dataRows.simps isSeparator_def parseCells_def pad_cells_def inline_spans_def
          Let_def trim_eval shapes_eval numeral_2_eq_2)
  from p q show ?thesis by (simp add: numeral_3_eq_3)
qed

text \<open>
  C6 as stated fails where it asks for a data row in every table: a header line followed
  by a separator line alone decodes to a table whose only row is the header row.
\<close>

theorem C6_header_only_table:
  "MarkdownToBlocks (\<lambda>s. s) (''| a |'' @ [NL] @ ''| --- |'') =
     Some [table_block 1 [table_row_block [[plain_span ''a'']]]]"
  by (rule header_only_table)

section \<open>The JSON boundary\<close>

text \<open>
  Blocks built by the decoder are sent to the API as JSON, and the blocks the encoder
  reads were decoded from JSON into \<open>map[string]any\<close>.  \<open>json.Marshal\<close> followed by
  \<open>json.Unmarshal\<close> into \<open>any\<close> turns every map into a \<open>map[string]any\<close>, every slice
  into a \<open>[]any\<close> and every number into a \<open>float64\<close>; it keeps booleans and \<open>nil\<close>.  A
  string, and a key of a map, comes back with every byte that is not part of a valid
  UTF-8 sequence replaced by the three bytes of U+FFFD: the encoder reads the string
  with \<open>utf8.DecodeRuneInString\<close> and writes \<open>\ufffd\<close> for each byte on which that fails.
\<close>

text \<open>The second byte of a sequence must lie in a range fixed by the first byte; every
  later byte lies between 0x80 and 0xBF.\<close>

definition in_range :: "nat \<Rightarrow> nat \<Rightarrow> char \<Rightarrow> bool" where
  "in_range lo hi c = (lo \<le> of_char c \<and> of_char c \<le> hi)"

text \<open>The length of the valid UTF-8 sequence at the head of a string; 0 when there is
  none (\<open>utf8.DecodeRuneInString\<close> returns \<open>RuneError\<close> and size 1).\<close>

fun rune_size :: "string \<Rightarrow> nat" where
  "rune_size [] = 0"
| "rune_size (b0 # bs) =
     (let x = (of_char b0 :: nat) in
      if x < 0x80 then 1
      else if 0xC2 \<le> x \<and> x \<le> 0xDF
        then (case bs of b1 # r1 \<Rightarrow> if in_range 0x80 0xBF b1 then 2 else 0 | [] \<Rightarrow> 0)
      else if 0xE0 \<le> x \<and> x \<le> 0xEF
        then (case bs of
                b1 # b2 # r2 \<Rightarrow>
                  if in_range (if x = 0xE0 then 0xA0 else 0x80) (if x = 0xED then 0x9F else 0xBF) b1
                     \<and> in_range 0x80 0xBF b2
                  then 3 else 0
              | _ \<Rightarrow> 0)
      else if 0xF0 \<le> x \<and> x \<le> 0xF4
        then (case bs of
                b1 # b2 # b3 # r3 \<Rightarrow>
                  if in_range (if x = 0xF0 then 0x90 else 0x80) (if x = 0xF4 then 0x8F else 0xBF) b1
                     \<and> in_range 0x80 0xBF b2 \<and> in_range 0x80 0xBF b3
                  then 4 else 0
              | _ \<Rightarrow> 0)
      else 0)"

lemma rune_size_le: "rune_size s \<le> 4"
  by (cases s) (auto simp: Let_def split: list.splits)

function json_string :: "string \<Rightarrow> string" where
  "json_string [] = []"
| "json_string (b # bs) =
     (if rune_size (b # bs) = 0
      then [CHR 0xEF, CHR 0xBF, CHR 0xBD] @ json_string bs
      else take (rune_size (b # bs)) (b # bs) @ json_string (drop (rune_size (b # bs)) (b # bs)))"
  by pat_completeness auto
termination
  by (relation "measure length") auto

declare json_string.simps(2) [simp del]

lemma json_string_ascii: "is_ascii s \<Longrightarrow> json_string s = s"
  by (induction s) (simp_all add: is_ascii_def json_string.simps(2))

primrec jsonify :: "gval \<Rightarrow> gval" where
  "jsonify GNil = GNil"
| "jsonify (GString s) = GString (json_string s)"
| "jsonify (GBool b) = GBool b"
| "jsonify (GInt n) = GFloat64 n"
| "jsonify (GMap m) = GMap (map (map_prod json_string jsonify) m)"
| "jsonify (GMapString m) = GMap (map (map_prod json_string (\<lambda>s. GString (json_string s))) m)"
| "jsonify (GMapBool m) = GMap (map (map_prod json_string GBool) m)"
| "jsonify (GSlice xs) = GSlice (map jsonify xs)"
| "jsonify (GSliceMap xs) = GSlice (map GMap (map (map (map_prod json_string jsonify)) xs))"
| "jsonify (GSliceSliceMap xss) =
     GSlice (map (\<lambda>xs. GSlice (map GMap xs))
               (map (map (map (map_prod json_string jsonify))) xss))"
| "jsonify (GFloat64 n) = GFloat64 n"

text \<open>A block is a \<open>map[string]any\<close>.  Two keys of a map that become equal once they are
  made valid UTF-8 do not occur: the keys of the program are ASCII literals.\<close>

definition jsonify_block :: "gmap \<Rightarrow> gmap" where
  "jsonify_block b = map (map_prod json_string jsonify) b"

text \<open>The state of the encoder's loop after a list of blocks.\<close>

definition encode_state :: "string list \<Rightarrow> gmap list \<Rightarrow> string \<times> nat \<times> string" where
  "encode_state tr blocks = foldl (encode_block tr) ([], 1, []) blocks"

lemma encode_state_snoc:
  "encode_state tr (blocks @ [b]) = encode_block tr (encode_state tr blocks) b"
  by (simp add: encode_state_def)

lemma BlocksToMarkdownWithChildPages_state:
  "BlocksToMarkdownWithChildPages blocks tr = fst (encode_state tr blocks)"
  by (simp add: BlocksToMarkdownWithChildPages_def encode_state_def)

lemma encode_invariant:
  "snd (snd (encode_state tr blocks)) \<noteq> ''numbered_list_item''
     \<Longrightarrow> fst (snd (encode_state tr blocks)) = 1"
proof (induction blocks rule: rev_induct)
  case Nil
  then show ?case by (simp add: encode_state_def)
next
  case (snoc b blocks)
  obtain r n l where st: "encode_state tr blocks = (r, n, l)" by (cases "encode_state tr blocks")
  show ?case
    using snoc unfolding encode_state_snoc st
    by (simp add: encode_block_def Let_def split: if_splits)
qed

lemma encode_after_other:
  assumes "as_string (index b ''type'') \<noteq> []"
    and "as_string (index b ''type'') \<noteq> ''numbered_list_item''"
  shows "fst (snd (encode_state tr (blocks @ [b]))) = 1"
proof -
  obtain r n l where st: "encode_state tr blocks = (r, n, l)" by (cases "encode_state tr blocks")
  have inv: "l \<noteq> ''numbered_list_item'' \<Longrightarrow> n = 1"
    using encode_invariant[of tr blocks] st by simp
  show ?thesis
    using assms inv unfolding encode_state_snoc st
    by (simp add: encode_block_def Let_def)
qed

lemma encode_numbered:
  assumes "as_string (index b ''type'') = ''numbered_list_item''"
  shows "encode_state tr (blocks @ [b]) =
           (fst (encode_state tr blocks)
              @ Itoa (fst (snd (encode_state tr blocks))) @ ''. ''
              @ extractBlockText b ''numbered_list_item'' @ [NL] @ formatBlockComments b,
            fst (snd (encode_state tr blocks)) + 1, ''numbered_list_item'')"
proof -
  obtain r n l where st: "encode_state tr blocks = (r, n, l)" by (cases "encode_state tr blocks")
  show ?thesis
    using assms unfolding encode_state_snoc st
    by (simp add: encode_block_def Let_def)
qed

section \<open>Numbered list ordinals\<close>

lemmas encode_eval =
  BlocksToMarkdown_def BlocksToMarkdownWithChildPages_def encode_block_def extractBlockText_def
  richTextToMarkdown_def richTextItem_def finish_item_def apply_annotations_def
  formatBlockComments_def index_def Itoa.simps digit_def jsonify_block_def Let_def
  extractTableMarkdown_def extractTableComments_def table_children_def row_cells_def row_line_def
  child_page_text_def comment_line_def

lemmas block_defs =
  rich_block_def divider_block_def code_block_def to_do_block_def table_block_def
  table_row_block_def span_defs

lemma numbered_example_decode:
  "MarkdownToBlocks u (''1. a'' @ [NL] @ ''2. b'' @ [NL] @ ''- c'' @ [NL] @ ''1. d'') =
     Some [rich_block ''numbered_list_item'' [plain_span ''a''],
           rich_block ''numbered_list_item'' [plain_span ''b''],
           rich_block ''bulleted_list_item'' [plain_span ''c''],
           rich_block ''numbered_list_item'' [plain_span ''d'']]"
  by (simp add: decode_eval inline_spans_def shapes_eval HasSuffix_def)

lemma numbered_example_json:
  "BlocksToMarkdown (map jsonify_block
     [rich_block ''numbered_list_item'' [plain_span ''a''],
      rich_block ''numbered_list_item'' [plain_span ''b''],
      rich_block ''bulleted_list_item'' [plain_span ''c''],
      rich_block ''numbered_list_item'' [plain_span ''d'']])
   = ''1. a'' @ [NL] @ ''2. b'' @ [NL] @ ''- c'' @ [NL] @ ''1. d'' @ [NL]"
  by (simp add: encode_eval block_defs json_string_ascii is_ascii_def)

lemma numbered_example_direct:
  "BlocksToMarkdown
     [rich_block ''numbered_list_item'' [plain_span ''a''],
      rich_block ''numbered_list_item'' [plain_span ''b''],
      rich_block ''bulleted_list_item'' [plain_span ''c''],
      rich_block ''numbered_list_item'' [plain_span ''d'']]
   = ''1. '' @ [NL] @ ''2. '' @ [NL] @ ''- '' @ [NL] @ ''1. '' @ [NL]"
  by (simp add: encode_eval block_defs)

text \<open>
  C5.  The lines \<open>1. a\<close>, \<open>2. b\<close>, \<open>- c\<close>, \<open>1. d\<close> decode to two numbered items, a bullet
  and a numbered item (the decoder stores no ordinal).  Encoding these blocks as they
  come back through JSON writes the ordinals 1 and 2 before the bullet and 1 after it;
  encoding the decoder's own maps writes the same ordinals.  In general the encoder's
  counter is 1 at the start and is 1 again after every block that has a type other than
  \<open>numbered_list_item\<close>, whatever came before; a numbered item is written with the
  current counter and raises it by one.  (An entry without a type is skipped by the
  encoder and is not a block for this purpose.)
\<close>

theorem C5_numbered_ordinals_restart:
  "MarkdownToBlocks u (''1. a'' @ [NL] @ ''2. b'' @ [NL] @ ''- c'' @ [NL] @ ''1. d'') =
     Some [rich_block ''numbered_list_item'' [plain_span ''a''],
           rich_block ''numbered_list_item'' [plain_span ''b''],
           rich_block ''bulleted_list_item'' [plain_span ''c''],
           rich_block ''numbered_list_item'' [plain_span ''d'']]
   \<and> BlocksToMarkdown (map jsonify_block
         [rich_block ''numbered_list_item'' [plain_span ''a''],
          rich_block ''numbered_list_item'' [plain_span ''b''],
          rich_block ''bulleted_list_item'' [plain_span ''c''],
          rich_block ''numbered_list_item'' [plain_span ''d'']])
       = ''1. a'' @ [NL] @ ''2. b'' @ [NL] @ ''- c'' @ [NL] @ ''1. d'' @ [NL]
   \<and> BlocksToMarkdown
         [rich_block ''numbered_list_item'' [plain_span ''a''],
          rich_block ''numbered_list_item'' [plain_span ''b''],
          rich_block ''bulleted_list_item'' [plain_span ''c''],
          rich_block ''numbered_list_item'' [plain_span ''d'']]
       = ''1. '' @ [NL] @ ''2. '' @ [NL] @ ''- '' @ [NL] @ ''1. '' @ [NL]
   \<and> BlocksToMarkdownWithChildPages blocks tr = fst (encode_state tr blocks)
   \<and> fst (snd (encode_state tr [])) = 1
   \<and> (as_string (index b ''type'') \<noteq> []
        \<and> as_string (index b ''type'') \<noteq> ''numbered_list_item''
        \<longrightarrow> fst (snd (encode_state tr (blocks @ [b]))) = 1)
   \<and> (as_string (index nb ''type'') = ''numbered_list_item''
        \<longrightarrow> encode_state tr (blocks @ [nb]) =
             (fst (encode_state tr blocks)
                @ Itoa (fst (snd (encode_state tr blocks))) @ ''. ''
                @ extractBlockText nb ''numbered_list_item'' @ [NL] @ formatBlockComments nb,
              fst (snd (encode_state tr blocks)) + 1, ''numbered_list_item''))"
proof (intro conjI impI)
  show "MarkdownToBlocks u (''1. a'' @ [NL] @ ''2. b'' @ [NL] @ ''- c'' @ [NL] @ ''1. d'') =
     Some [rich_block ''numbered_list_item'' [plain_span ''a''],
           rich_block ''numbered_list_item'' [plain_span ''b''],
           rich_block ''bulleted_list_item'' [plain_span ''c''],
           rich_block ''numbered_list_item'' [plain_span ''d'']]"
    by (rule numbered_example_decode)
  show "BlocksToMarkdown (map jsonify_block
         [rich_block ''numbered_list_item'' [plain_span ''a''],
          rich_block ''numbered_list_item'' [plain_span ''b''],
          rich_block ''bulleted_list_item'' [plain_span ''c''],
          rich_block ''numbered_list_item'' [plain_span ''d'']])
       = ''1. a'' @ [NL] @ ''2. b'' @ [NL] @ ''- c'' @ [NL] @ ''1. d'' @ [NL]"
    by (rule numbered_example_json)
  show "BlocksToMarkdown
         [rich_block ''numbered_list_item'' [plain_span ''a''],
          rich_block ''numbered_list_item'' [plain_span ''b''],
          rich_block ''bulleted_list_item'' [plain_span ''c''],
          rich_block ''numbered_list_item'' [plain_span ''d'']]
       = ''1. '' @ [NL] @ ''2. '' @ [NL] @ ''- '' @ [NL] @ ''1. '' @ [NL]"
    by (rule numbered_example_direct)
  show "BlocksToMarkdownWithChildPages blocks tr = fst (encode_state tr blocks)"
    by (rule BlocksToMarkdownWithChildPages_state)
  show "fst (snd (encode_state tr [])) = 1" by (simp add: encode_state_def)
  show "fst (snd (encode_state tr (blocks @ [b]))) = 1"
    if "as_string (index b ''type'') \<noteq> []
        \<and> as_string (index b ''type'') \<noteq> ''numbered_list_item''"
    using that by (simp add: encode_after_other)
  show "encode_state tr (blocks @ [nb]) =
             (fst (encode_state tr blocks)
                @ Itoa (fst (snd (encode_state tr blocks))) @ ''. ''
                @ extractBlockText nb ''numbered_list_item'' @ [NL] @ formatBlockComments nb,
              fst (snd (encode_state tr blocks)) + 1, ''numbered_list_item'')"
    if "as_string (index nb ''type'') = ''numbered_list_item''"
    using that by (rule encode_numbered)
qed

theorem C5_numbered_ordinals_witness:
  "fst (snd (encode_state []
      ([rich_block ''numbered_list_item'' [plain_span ''a'']] @ [divider_block]))) = 1
   \<and> encode_state [] ([divider_block] @ [rich_block ''numbered_list_item'' [plain_span ''a'']]) =
       (''---'' @ [NL, NL] @ ''1. '' @ [NL], 2, ''numbered_list_item'')"
proof -
  note c = conjunct1 conjunct2
  note i1 = C5_numbered_ordinals_restart
    [of "\<lambda>s. s" "[rich_block ''numbered_list_item'' [plain_span ''a'']]" "[]" divider_block
        "rich_block ''numbered_list_item'' [plain_span ''a'']"]
  note i2 = C5_numbered_ordinals_restart
    [of "\<lambda>s. s" "[divider_block]" "[]" divider_block
        "rich_block ''numbered_list_item'' [plain_span ''a'']"]
  have h1: "as_string (index divider_block ''type'') \<noteq> []
        \<and> as_string (index divider_block ''type'') \<noteq> ''numbered_list_item''"
    by (simp add: divider_block_def index_def)
  have h2: "as_string (index (rich_block ''numbered_list_item'' [plain_span ''a'']) ''type'')
              = ''numbered_list_item''"
    by (simp add: rich_block_def index_def)
  have a: "fst (snd (encode_state []
      ([rich_block ''numbered_list_item'' [plain_span ''a'']] @ [divider_block]))) = 1"
    by (rule i1[THEN c(2), THEN c(2), THEN c(2), THEN c(2), THEN c(2), THEN c(1), THEN mp, OF h1])
  have b: "encode_state [] ([divider_block] @ [rich_block ''numbered_list_item'' [plain_span ''a'']]) =
       (''---'' @ [NL, NL] @ ''1. '' @ [NL], 2, ''numbered_list_item'')"
    using i2[THEN c(2), THEN c(2), THEN c(2), THEN c(2), THEN c(2), THEN c(2), THEN mp, OF h2]
    by (simp add: encode_state_def encode_eval block_defs)
  from a b show ?thesis by (intro conjI)
qed

section \<open>Pull, push and diff (sync.go)\<close>

text \<open>
  File \<open>sync.go\<close> holds two revisions of the package.  The first one (reading the file
  from its top) pulls with trailing child pages and a \<open>child_pages\<close> list in the
  frontmatter, and pushes by erase, append and re-parent.  The second one pushes with two
  strategies (erase and restore, or keep the child pages where they are).  Functions of the
  first revision that the second one defines again carry the suffix \<open>_r1\<close> here.
\<close>

subsection \<open>Frontmatter\<close>

text \<open>The loop body of \<open>parseFrontmatterFull\<close>; the state is \<open>(pageID, childPages,
  inChildPages)\<close>.\<close>

definition frontmatter_step ::
  "string \<times> string list \<times> bool \<Rightarrow> string \<Rightarrow> string \<times> string list \<times> bool" where
  "frontmatter_step st line =
     (case st of (pageID, childPages, inChildPages) \<Rightarrow>
        if HasPrefix line ''notion_id:''
          then (TrimSpace (TrimPrefix line ''notion_id:''), childPages, False)
        else if HasPrefix line ''child_pages:'' then (pageID, childPages, True)
        else if inChildPages \<and> HasPrefix line ''  - ''
          then (let cpID = TrimSpace (TrimPrefix line ''  - '') in
                if cpID \<noteq> [] then (pageID, childPages @ [cpID], inChildPages) else st)
        else if \<not> HasPrefix line ''  '' then (pageID, childPages, False)
        else st)"

definition parseFrontmatterFull :: "string \<Rightarrow> string \<times> string list \<times> string" where
  "parseFrontmatterFull content =
     (if \<not> HasPrefix content (''---'' @ [NL]) then ([], [], content)
      else
        (let endIdx = Index (drop 4 content) (NL # ''---'' @ [NL]) in
         if endIdx = - 1 then ([], [], content)
         else
           (let frontmatter = take (nat endIdx) (drop 4 content);
                markdown = drop (nat (4 + endIdx + 5)) content
            in case foldl frontmatter_step ([], [], False) (Split frontmatter NL) of
                 (pageID, childPages, inChildPages) \<Rightarrow> (pageID, childPages, markdown))))"

definition parseFrontmatter_r1 :: "string \<Rightarrow> string \<times> string" where
  "parseFrontmatter_r1 content =
     (case parseFrontmatterFull content of (pageID, childPages, markdown) \<Rightarrow> (pageID, markdown))"

text \<open>The second revision stops at the first \<open>notion_id:\<close> line.\<close>

fun first_notion_id :: "string list \<Rightarrow> string" where
  "first_notion_id [] = []"
| "first_notion_id (line # rest) =
     (if HasPrefix line ''notion_id:'' then TrimSpace (TrimPrefix line ''notion_id:'')
      else first_notion_id rest)"

definition parseFrontmatter :: "string \<Rightarrow> string \<times> string" where
  "parseFrontmatter content =
     (if \<not> HasPrefix content (''---'' @ [NL]) then ([], content)
      else
        (let endIdx = Index (drop 4 content) (NL # ''---'' @ [NL]) in
         if endIdx = - 1 then ([], content)
         else
           (let frontmatter = take (nat endIdx) (drop 4 content);
                markdown = drop (nat (4 + endIdx + 5)) content
            in (first_notion_id (Split frontmatter NL), markdown))))"

definition extractCommentsSection :: "string \<Rightarrow> string \<times> string" where
  "extractCommentsSection markdown =
     (let idx = Index markdown (NL # ''## Comments'' @ [NL]) in
      if idx = - 1 then (markdown, [])
      else
        (let dividerIdx = LastIndex (take (nat idx) markdown) (NL # ''---'' @ [NL]) in
         if dividerIdx \<noteq> - 1
           then (TrimSpace (take (nat dividerIdx) markdown), TrimSpace (drop (nat (idx + 13)) markdown))
           else (TrimSpace (take (nat idx) markdown), TrimSpace (drop (nat (idx + 13)) markdown))))"

text \<open>The frontmatter that \<open>PullPage\<close> writes (first revision); \<open>pulledAt\<close> is the
  time of the pull as \<open>time.RFC3339\<close> formats it.\<close>

definition render_frontmatter :: "string \<Rightarrow> string \<Rightarrow> string \<Rightarrow> string list \<Rightarrow> string" where
  "render_frontmatter pageID title pulledAt childPageIDs =
     ''---'' @ [NL] @ ''notion_id: '' @ pageID @ [NL] @ ''title: '' @ title @ [NL]
       @ ''pulled_at: '' @ pulledAt @ [NL]
       @ (if childPageIDs \<noteq> []
          then ''child_pages:'' @ [NL] @ concat (map (\<lambda>cpID. ''  - '' @ cpID @ [NL]) childPageIDs)
          else [])
       @ ''---'' @ [NL, NL]"

subsection \<open>Child page markers (second revision)\<close>

record childPageInfo =
  ID :: string
  Title :: string
  Position :: nat

record currentChildPage = childPageInfo +
  BlockID :: string

definition marker_inner :: "string \<Rightarrow> string" where
  "marker_inner line = TrimSpace (TrimSuffix (TrimPrefix line ''<!-- child_page:'') ''-->'')"

fun parseChildPageComments_loop :: "string list \<Rightarrow> nat \<Rightarrow> childPageInfo list" where
  "parseChildPageComments_loop [] blockIndex = []"
| "parseChildPageComments_loop (line # rest) blockIndex =
     (if line = [] then parseChildPageComments_loop rest blockIndex
      else if HasPrefix line ''<!-- child_page:'' \<and> HasSuffix line ''-->''
        then (let parts = SplitN2 (marker_inner line) (CHR ''|'');
                  id = TrimSpace (hd parts);
                  title = (if length parts > 1 then TrimSpace (parts ! 1) else [])
              in \<lparr>ID = id, Title = title, Position = blockIndex\<rparr>
                   # parseChildPageComments_loop rest blockIndex)
      else parseChildPageComments_loop rest (blockIndex + 1))"

definition parseChildPageComments :: "string \<Rightarrow> childPageInfo list" where
  "parseChildPageComments markdown = parseChildPageComments_loop (splitLines markdown) 0"

definition warning_block :: "string \<Rightarrow> gmap" where
  "warning_block title =
     [(''object'', GString ''block''), (''type'', GString ''paragraph''),
      (''paragraph'', GMap [(''rich_text'', GSliceMap
         [[(''type'', GString ''text''),
           (''text'', GMapString
              [(''content'', ''(child page '' @ [CHR 0x27] @ title @ [CHR 0x27] @ '' moved to end of this doc)'')]),
           (''annotations'', GMap [(''italic'', GBool True), (''color'', GString ''gray'')])]])])]"

text \<open>The loop of \<open>markdownToBlocksWithChildPageWarnings\<close>; \<open>warningMap\<close> is the Go map
  from marker id to marker, \<open>blocks\<close> the decoded blocks.\<close>

fun warnings_loop ::
  "(string \<rightharpoonup> childPageInfo) \<Rightarrow> gmap list \<Rightarrow> string list \<Rightarrow> nat \<Rightarrow> gmap list" where
  "warnings_loop warningMap blocks [] blockIndex = []"
| "warnings_loop warningMap blocks (line # rest) blockIndex =
     (if line = [] then warnings_loop warningMap blocks rest blockIndex
      else if HasPrefix line ''<!-- child_page:'' \<and> HasSuffix line ''-->''
        then (let parts = SplitN2 (marker_inner line) (CHR ''|'');
                  id = TrimSpace (hd parts)
              in case warningMap id of
                   Some w \<Rightarrow> warning_block (Title w) # warnings_loop warningMap blocks rest blockIndex
                 | None \<Rightarrow> warnings_loop warningMap blocks rest blockIndex)
      else (if blockIndex < length blocks then [blocks ! blockIndex] else [])
             @ warnings_loop warningMap blocks rest (blockIndex + 1))"

definition markdownToBlocksWithChildPageWarnings ::
  "(string \<Rightarrow> string) \<Rightarrow> string \<Rightarrow> childPageInfo list \<Rightarrow> gmap list option" where
  "markdownToBlocksWithChildPageWarnings ulower markdown warnings =
     (case MarkdownToBlocks ulower markdown of
        None \<Rightarrow> None
      | Some blocks \<Rightarrow>
          if warnings = [] then Some blocks
          else Some (warnings_loop (map_of (rev (map (\<lambda>w. (ID w, w)) warnings))) blocks
                       (splitLines markdown) 0))"

subsection \<open>The remote service and the file system\<close>

text \<open>
  The methods of \<open>Client\<close> that talk to the service (\<open>getPageTitle\<close>, \<open>fetchAllBlocks\<close>,
  \<open>fetchComments\<close>, \<open>erasePage\<close>, \<open>appendBlocksBatched\<close>, \<open>reparentPages\<close>,
  \<open>restorePages\<close>, \<open>updateBlockToEmptyParagraph\<close>, \<open>deleteBlock\<close>, \<open>appendBlocksAfter\<close>)
  and the two writing calls of package \<open>os\<close> are events of a trace.  What a call answers
  is given by the world and may depend on every call made before it.  An error is its
  message.
\<close>

datatype call =
    GetPageTitle string
  | FetchAllBlocks string
  | FetchComments string
  | ErasePage string
  | AppendBlocksBatched string "gmap list"
  | ReparentPages string "string list"
  | RestorePages "string list"
  | UpdateBlockToEmptyParagraph string
  | DeleteBlock string
  | AppendBlocksAfter string string "gmap list"
  | MkdirAll string
  | WriteFile string string

fun remote_mutation :: "call \<Rightarrow> bool" where
  "remote_mutation (ErasePage p) = True"
| "remote_mutation (AppendBlocksBatched p bs) = True"
| "remote_mutation (ReparentPages p cs) = True"
| "remote_mutation (RestorePages cs) = True"
| "remote_mutation (UpdateBlockToEmptyParagraph b) = True"
| "remote_mutation (DeleteBlock b) = True"
| "remote_mutation (AppendBlocksAfter p a bs) = True"
| "remote_mutation c = False"

text \<open>A comment as \<open>PullPage\<close> prints it; \<open>CreatedAt\<close> is the date already formatted with
  the layout \<open>Jan 2, 2006\<close>.\<close>

record comment =
  Author :: string
  CreatedAt :: string
  Content :: string

record world =
  readFile :: "string \<Rightarrow> string + string"
  now :: string
  joinPath :: "string \<Rightarrow> string \<Rightarrow> string"
  pageTitle :: "call list \<Rightarrow> string \<Rightarrow> string + string"
  allBlocks :: "call list \<Rightarrow> string \<Rightarrow> string + gmap list"
  pageComments :: "call list \<Rightarrow> string \<Rightarrow> comment list"
  failure :: "call list \<Rightarrow> call \<Rightarrow> string option"
  toLower :: "string \<Rightarrow> string"

text \<open>The outcome of an operation: a Go panic, a returned error, or a returned value.\<close>

datatype 'a outcome = Panic | Failure string | Success 'a

definition getPageTitle :: "world \<Rightarrow> string \<Rightarrow> call list \<Rightarrow> (string + string) \<times> call list" where
  "getPageTitle w pageID log = (pageTitle w log pageID, log @ [GetPageTitle pageID])"

definition fetchAllBlocks :: "world \<Rightarrow> string \<Rightarrow> call list \<Rightarrow> (string + gmap list) \<times> call list" where
  "fetchAllBlocks w pageID log = (allBlocks w log pageID, log @ [FetchAllBlocks pageID])"

definition fetchComments :: "world \<Rightarrow> string \<Rightarrow> call list \<Rightarrow> comment list \<times> call list" where
  "fetchComments w pageID log = (pageComments w log pageID, log @ [FetchComments pageID])"

definition request :: "world \<Rightarrow> call \<Rightarrow> call list \<Rightarrow> string option \<times> call list" where
  "request w c log = (failure w log c, log @ [c])"

text \<open>\<open>if err := act; err != nil { return fmt.Errorf(msg + "%w", err) }\<close>, then the rest.\<close>

definition attempt ::
  "(call list \<Rightarrow> string option \<times> call list) \<Rightarrow> string \<Rightarrow>
   (call list \<Rightarrow> 'a outcome \<times> call list) \<Rightarrow> call list \<Rightarrow> 'a outcome \<times> call list" where
  "attempt act msg rest log =
     (case act log of
        (Some err, log') \<Rightarrow> (Failure (msg @ err), log')
      | (None, log') \<Rightarrow> rest log')"

subsection \<open>DiffPage\<close>

definition diff_step ::
  "string list \<Rightarrow> string list \<Rightarrow> string \<times> bool \<Rightarrow> nat \<Rightarrow> string \<times> bool" where
  "diff_step localLines notionLines st i =
     (case st of (diff, hasChanges) \<Rightarrow>
        (let local = (if i < length localLines then localLines ! i else []);
             notion = (if i < length notionLines then notionLines ! i else [])
         in if local \<noteq> notion
            then (diff @ (if notion \<noteq> [] then ''- '' @ notion @ [NL] else [])
                       @ (if local \<noteq> [] then ''+ '' @ local @ [NL] else []), True)
            else st))"

text \<open>Lines 279 to 316 of \<open>DiffPage\<close>: the comparison of the two texts.\<close>

definition diff_report :: "string \<Rightarrow> string \<Rightarrow> string \<Rightarrow> string \<Rightarrow> string" where
  "diff_report filePath pageID localMarkdown notionMarkdown =
     (let localLines = Split (TrimSpace localMarkdown) NL;
          notionLines = Split (TrimSpace notionMarkdown) NL;
          header = ''Comparing '' @ filePath @ '' against Notion page '' @ pageID @ [NL, NL];
          maxLines = (if length notionLines > length localLines
                      then length notionLines else length localLines)
      in case foldl (diff_step localLines notionLines) (header, False) [0..<maxLines] of
           (diff, hasChanges) \<Rightarrow> if \<not> hasChanges then ''No changes detected.'' else diff)"

text \<open>\<open>DiffPage\<close> is the same text in both revisions; it calls the \<open>parseFrontmatter\<close> of
  its revision.\<close>

definition DiffPage_with ::
  "(string \<Rightarrow> string \<times> string) \<Rightarrow> world \<Rightarrow> string \<Rightarrow> call list \<Rightarrow> string outcome \<times> call list" where
  "DiffPage_with parse w filePath log =
     (case readFile w filePath of
        Inl err \<Rightarrow> (Failure (''failed to read file: '' @ err), log)
      | Inr localContent \<Rightarrow>
          (case parse localContent of (pageID, localMarkdown) \<Rightarrow>
             if pageID = [] then (Failure ''no notion_id found in frontmatter'', log)
             else
               (case fetchAllBlocks w pageID log of
                  (Inl err, log') \<Rightarrow> (Failure (''failed to fetch blocks: '' @ err), log')
                | (Inr blocks, log') \<Rightarrow>
                    (Success (diff_report filePath pageID localMarkdown (BlocksToMarkdown blocks)),
                     log'))))"

definition DiffPage :: "world \<Rightarrow> string \<Rightarrow> call list \<Rightarrow> string outcome \<times> call list" where
  "DiffPage = DiffPage_with parseFrontmatter"

definition DiffPage_r1 :: "world \<Rightarrow> string \<Rightarrow> call list \<Rightarrow> string outcome \<times> call list" where
  "DiffPage_r1 = DiffPage_with parseFrontmatter_r1"

subsection \<open>PullPage (first revision)\<close>

definition childPageIDs_of :: "gmap list \<Rightarrow> string list" where
  "childPageIDs_of blocks =
     filter (\<lambda>blockID. blockID \<noteq> [])
       (map (\<lambda>block. as_string (index block ''id''))
          (filter (\<lambda>block. as_string (index block ''type'') = ''child_page'') blocks))"

definition lastNonChildPageIdx :: "gmap list \<Rightarrow> int" where
  "lastNonChildPageIdx blocks =
     foldl (\<lambda>lastIdx i. if as_string (index (blocks ! i) ''type'') \<noteq> ''child_page''
                        then int i else lastIdx)
       (- 1) [0..<length blocks]"

definition trailingChildPages_of :: "gmap list \<Rightarrow> string list" where
  "trailingChildPages_of blocks =
     filter (\<lambda>blockID. blockID \<noteq> [])
       (map (\<lambda>i. as_string (index (blocks ! i) ''id''))
          (filter (\<lambda>i. as_string (index (blocks ! i) ''type'') = ''child_page''
                       \<and> int i > lastNonChildPageIdx blocks)
             [0..<length blocks]))"

definition comments_section :: "comment list \<Rightarrow> string" where
  "comments_section comments =
     (if comments = [] then []
      else [NL] @ ''---'' @ [NL, NL] @ ''## Comments'' @ [NL, NL]
           @ concat (map (\<lambda>c. ''> **'' @ Author c @ ''** *('' @ CreatedAt c @ '')*: ''
                               @ Content c @ [NL, NL]) comments))"

text \<open>\<open>sanitizeFilename\<close>: the characters of the class \<open>[<>:"/\|?*]\<close> become \<open>_\<close>, and
  the name is cut to 100 bytes.\<close>

definition sanitizeFilename :: "string \<Rightarrow> string" where
  "sanitizeFilename name =
     take 100 (map (\<lambda>c. if c \<in> set (''<>:/|?*'' @ [CHR 0x22, CHR 0x5C]) then CHR ''_'' else c) name)"

record PullResult =
  Markdown :: string
  FilePath :: string
  PageID :: string
  PageTitle :: string
  ChildPages :: "string list"

definition PullPage ::
  "world \<Rightarrow> string \<Rightarrow> string \<Rightarrow> call list \<Rightarrow> PullResult outcome \<times> call list" where
  "PullPage w pageID0 outputDir0 log0 =
     (let pageID = StripHyphens pageID0 in
      case getPageTitle w pageID log0 of (titleResult, log1) \<Rightarrow>
      (let title = (case titleResult of Inl err \<Rightarrow> pageID | Inr t \<Rightarrow> t) in
       case fetchAllBlocks w pageID log1 of
         (Inl err, log2) \<Rightarrow> (Failure (''failed to fetch blocks: '' @ err), log2)
       | (Inr blocks, log2) \<Rightarrow>
          (let childPageIDs = childPageIDs_of blocks;
               trailingChildPages = trailingChildPages_of blocks
           in case fetchComments w pageID log2 of (comments, log3) \<Rightarrow>
             (let markdown = BlocksToMarkdownWithChildPages blocks trailingChildPages
                               @ comments_section comments;
                  outputDir = (if outputDir0 = [] then ''/tmp/notion'' else outputDir0)
              in attempt (request w (MkdirAll outputDir)) ''failed to create output dir: ''
                   (\<lambda>log4.
                      (let filePath = joinPath w outputDir (sanitizeFilename title @ ''.md'');
                           content = render_frontmatter pageID title (now w) childPageIDs @ markdown
                       in attempt (request w (WriteFile filePath content)) ''failed to write file: ''
                            (\<lambda>log5. (Success \<lparr>Markdown = content, FilePath = filePath,
                                                PageID = pageID, PageTitle = title,
                                                ChildPages = childPageIDs\<rparr>, log5)) log4))
                   log3))))"

subsection \<open>PushPage\<close>

definition comments_blocks :: "(string \<Rightarrow> string) \<Rightarrow> string \<Rightarrow> gmap list option" where
  "comments_blocks ulower preservedComments =
     (if preservedComments = [] then Some []
      else (case MarkdownToBlocks ulower preservedComments of
              None \<Rightarrow> None
            | Some bs \<Rightarrow>
                Some ([divider_block,
                       [(''object'', GString ''block''), (''type'', GString ''heading_2''),
                        (''heading_2'', GMap [(''rich_text'', GSliceMap
                           [[(''type'', GString ''text''),
                             (''text'', GMapString [(''content'', ''Comments'')])]])])]]
                      @ bs)))"

text \<open>The first revision: erase, append, re-parent.\<close>

definition PushPage_r1 :: "world \<Rightarrow> string \<Rightarrow> call list \<Rightarrow> unit outcome \<times> call list" where
  "PushPage_r1 w filePath log =
     (case readFile w filePath of
        Inl err \<Rightarrow> (Failure (''failed to read file: '' @ err), log)
      | Inr content \<Rightarrow>
          (case parseFrontmatterFull content of (pageID, childPageIDs, markdown0) \<Rightarrow>
             if pageID = [] then (Failure ''no notion_id found in frontmatter'', log)
             else
               (case extractCommentsSection markdown0 of (markdown, preservedComments) \<Rightarrow>
                  (case MarkdownToBlocks (toLower w) markdown of
                     None \<Rightarrow> (Panic, log)
                   | Some blocks0 \<Rightarrow>
                       (case comments_blocks (toLower w) preservedComments of
                          None \<Rightarrow> (Panic, log)
                        | Some extra \<Rightarrow>
                            attempt (request w (ErasePage pageID)) ''failed to erase page: ''
                              (attempt (request w (AppendBlocksBatched pageID (blocks0 @ extra)))
                                 ''failed to append blocks: ''
                                 (if childPageIDs \<noteq> []
                                  then attempt (request w (ReparentPages pageID childPageIDs))
                                         ''failed to reparent child pages: ''
                                         (\<lambda>log'. (Success (), log'))
                                  else (\<lambda>log'. (Success (), log'))))
                              log)))))"

text \<open>The second revision.  \<open>pushPageSimple\<close> is Strategy A: erase, append, restore the
  child pages from the trash.  Calls of \<open>debugLog\<close>, and the loop over \<open>markedIDs\<close> that
  only calls it, write to a log file and nothing else; they are left out.\<close>

definition pushPageSimple ::
  "world \<Rightarrow> string \<Rightarrow> gmap list \<Rightarrow> currentChildPage list \<Rightarrow> call list
   \<Rightarrow> unit outcome \<times> call list" where
  "pushPageSimple w pageID blocks childPages =
     (let childPageIDs = map ID childPages in
      attempt (request w (ErasePage pageID)) ''failed to erase page: ''
        (attempt (request w (AppendBlocksBatched pageID blocks)) ''failed to append blocks: ''
           (if childPageIDs \<noteq> []
            then attempt (request w (RestorePages childPageIDs))
                   ''failed to restore child pages: '' (\<lambda>log'. (Success (), log'))
            else (\<lambda>log'. (Success (), log')))))"

text \<open>\<open>pushPagePreservePositions\<close> is Strategy B.  Its anchor is the first block that is
  not a child page.\<close>

definition anchor_of :: "gmap list \<Rightarrow> string" where
  "anchor_of currentBlocks =
     (case find (\<lambda>block. as_string (index block ''type'') \<noteq> ''child_page'') currentBlocks of
        None \<Rightarrow> []
      | Some block \<Rightarrow> as_string (index block ''id''))"

text \<open>Step 2: every other block that is not a child page is deleted; a failure is only
  logged.\<close>

definition delete_others :: "world \<Rightarrow> string \<Rightarrow> gmap list \<Rightarrow> call list \<Rightarrow> call list" where
  "delete_others w anchorBlockID currentBlocks log0 =
     foldl (\<lambda>log block.
              if as_string (index block ''id'') \<noteq> anchorBlockID
                 \<and> as_string (index block ''type'') \<noteq> ''child_page''
              then snd (request w (DeleteBlock (as_string (index block ''id''))) log)
              else log)
       log0 currentBlocks"

text \<open>Step 3: the new blocks are cut into sections at the positions of the markers.  The
  state is \<open>(sections, blocks of the current section, its afterID, blockIndex,
  childPageIndex)\<close>.\<close>

definition section_step ::
  "childPageInfo list \<Rightarrow> (string \<rightharpoonup> string) \<Rightarrow> string
   \<Rightarrow> (gmap list \<times> string) list \<times> gmap list \<times> string \<times> nat \<times> nat \<Rightarrow> gmap
   \<Rightarrow> (gmap list \<times> string) list \<times> gmap list \<times> string \<times> nat \<times> nat" where
  "section_step markdownChildPages childPageIDMap anchorBlockID st block =
     (case st of (sections, curBlocks, curAfter, blockIndex, childPageIndex) \<Rightarrow>
        if childPageIndex < length markdownChildPages
           \<and> blockIndex = Position (markdownChildPages ! childPageIndex)
        then (if curBlocks \<noteq> [] then sections @ [(curBlocks, curAfter)] else sections,
              [block],
              (case childPageIDMap (StripHyphens (ID (markdownChildPages ! childPageIndex))) of
                 Some blockID \<Rightarrow> blockID
               | None \<Rightarrow> anchorBlockID),
              blockIndex + 1, childPageIndex + 1)
        else (sections, curBlocks @ [block], curAfter, blockIndex + 1, childPageIndex))"

definition sections_of ::
  "childPageInfo list \<Rightarrow> currentChildPage list \<Rightarrow> string \<Rightarrow> gmap list
   \<Rightarrow> (gmap list \<times> string) list" where
  "sections_of markdownChildPages currentChildPages anchorBlockID newBlocks =
     (case foldl (section_step markdownChildPages
                    (map_of (rev (map (\<lambda>cp. (StripHyphens (ID cp), BlockID cp)) currentChildPages)))
                    anchorBlockID)
             ([], [], anchorBlockID, 0, 0) newBlocks of
        (sections, curBlocks, curAfter, blockIndex, childPageIndex) \<Rightarrow>
          if curBlocks \<noteq> [] then sections @ [(curBlocks, curAfter)] else sections)"

text \<open>Step 4: the sections are inserted in order; the first failure ends the push.\<close>

fun insert_sections ::
  "world \<Rightarrow> string \<Rightarrow> (gmap list \<times> string) list \<Rightarrow> nat \<Rightarrow> call list
   \<Rightarrow> string option \<times> call list" where
  "insert_sections w pageID [] i log = (None, log)"
| "insert_sections w pageID (sec # secs) i log =
     (case request w (AppendBlocksAfter pageID (snd sec) (fst sec)) log of
        (Some err, log') \<Rightarrow>
          (Some (''failed to insert section '' @ Itoa i @ '': '' @ err), log')
      | (None, log') \<Rightarrow> insert_sections w pageID secs (i + 1) log')"

definition pushPagePreservePositions ::
  "world \<Rightarrow> string \<Rightarrow> gmap list \<Rightarrow> gmap list \<Rightarrow> currentChildPage list \<Rightarrow> childPageInfo list
   \<Rightarrow> call list \<Rightarrow> unit outcome \<times> call list" where
  "pushPagePreservePositions w pageID newBlocks currentBlocks currentChildPages markdownChildPages =
     (let anchorBlockID = anchor_of currentBlocks in
      if anchorBlockID = [] then pushPageSimple w pageID newBlocks currentChildPages
      else
        attempt (request w (UpdateBlockToEmptyParagraph anchorBlockID)) ''failed to update anchor: ''
          (\<lambda>log1.
             (case insert_sections w pageID
                     (sections_of markdownChildPages currentChildPages anchorBlockID newBlocks) 0
                     (delete_others w anchorBlockID currentBlocks log1) of
                (Some err, log2) \<Rightarrow> (Failure err, log2)
              | (None, log2) \<Rightarrow>
                  (Success (), snd (request w (DeleteBlock anchorBlockID) log2)))))"

text \<open>The child pages of the current page, with their positions.\<close>

definition currentChildPages_of :: "gmap list \<Rightarrow> currentChildPage list" where
  "currentChildPages_of currentBlocks =
     map (\<lambda>i. (let block = currentBlocks ! i; blockID = as_string (index block ''id'')
                in \<lparr>ID = blockID,
                    Title = (case as_map (index block ''child_page'') of
                               Some cp \<Rightarrow> as_string (index cp ''title'')
                             | None \<Rightarrow> []),
                    Position = i, BlockID = blockID\<rparr>))
       (filter (\<lambda>i. as_string (index (currentBlocks ! i) ''type'') = ''child_page'')
          [0..<length currentBlocks])"

text \<open>The choice between the strategies: \<open>needsFallback\<close> and the markers to warn about.\<close>

definition fallback_of ::
  "currentChildPage list \<Rightarrow> childPageInfo list \<Rightarrow> bool \<times> childPageInfo list" where
  "fallback_of currentChildPages childPagesInMarkdown =
     (if currentChildPages \<noteq> [] \<and> Position (hd currentChildPages) = 0
      then (if childPagesInMarkdown \<noteq> [] \<and> Position (hd childPagesInMarkdown) > 0
            then (True, [hd childPagesInMarkdown])
            else if childPagesInMarkdown = [] then (True, [])
            else (False, []))
      else (False, []))"

definition PushPage :: "world \<Rightarrow> string \<Rightarrow> call list \<Rightarrow> unit outcome \<times> call list" where
  "PushPage w filePath log =
     (case readFile w filePath of
        Inl err \<Rightarrow> (Failure (''failed to read file: '' @ err), log)
      | Inr content \<Rightarrow>
          (case parseFrontmatter content of (pageID, markdown0) \<Rightarrow>
             if pageID = [] then (Failure ''no notion_id found in frontmatter'', log)
             else
               (case extractCommentsSection markdown0 of (markdown, preservedComments) \<Rightarrow>
                (let childPagesInMarkdown = parseChildPageComments markdown in
                 case fetchAllBlocks w pageID log of
                   (Inl err, log1) \<Rightarrow> (Failure (''failed to fetch current blocks: '' @ err), log1)
                 | (Inr currentBlocks, log1) \<Rightarrow>
                     (let currentChildPages = currentChildPages_of currentBlocks in
                      case fallback_of currentChildPages childPagesInMarkdown of
                        (needsFallback, fallbackWarnings) \<Rightarrow>
                          (case markdownToBlocksWithChildPageWarnings (toLower w) markdown
                                  fallbackWarnings of
                             None \<Rightarrow> (Panic, log1)
                           | Some blocks0 \<Rightarrow>
                               (case comments_blocks (toLower w) preservedComments of
                                  None \<Rightarrow> (Panic, log1)
                                | Some extra \<Rightarrow>
                                    if needsFallback \<or> currentChildPages = []
                                    then pushPageSimple w pageID (blocks0 @ extra)
                                           currentChildPages log1
                                    else pushPagePreservePositions w pageID (blocks0 @ extra)
                                           currentBlocks currentChildPages childPagesInMarkdown
                                           log1)))))))"

section \<open>Lemmas: the block decoder line by line\<close>

lemma decode_lines_Nil: "decode_lines u [] = []"
  by (simp add: decode_lines_def MarkdownToBlocks_lines.simps)

lemma if_Some: "(if c then Some a else Some b) = Some (if c then a else b)"
  by simp

lemma case_if_table:
  "(case (if c then None else Some t) of None \<Rightarrow> bs | Some t \<Rightarrow> t # bs) = (if c then bs else t # bs)"
  by simp

lemma decode_lines_Cons:
  "decode_lines u (line # rest) =
     (if line = []  then decode_lines u rest
      else if is_child_page_marker line then decode_lines u rest
      else if length line > 2 \<and> line ! 0 = CHR ''#'' \<and> line ! 1 = CHR '' ''
        then rich_block ''heading_1'' (inline_spans (drop 2 line)) # decode_lines u rest
      else if length line > 3 \<and> take 3 line = ''## ''
        then rich_block ''heading_2'' (inline_spans (drop 3 line)) # decode_lines u rest
      else if length line > 4 \<and> take 4 line = ''### ''
        then rich_block ''heading_3'' (inline_spans (drop 4 line)) # decode_lines u rest
      else if line = ''---'' then divider_block # decode_lines u rest
      else if is_fence line
        then code_block (Join (takeWhile (\<lambda>l. \<not> is_fence l) rest) [NL])
               (mapLanguageToNotion u (TrimSpace (drop 3 line)))
             # decode_lines u (drop 1 (dropWhile (\<lambda>l. \<not> is_fence l) rest))
      else if length line > 5 \<and> (take 5 line = ''- [ ]'' \<or> take 5 line = ''- [x]'')
        then to_do_block (inline_spans (if length line > 6 then drop 6 line else []))
               (line ! 3 = CHR ''x'') # decode_lines u rest
      else if length line > 2 \<and> take 2 line = ''- ''
        then rich_block ''bulleted_list_item'' (inline_spans (drop 2 line)) # decode_lines u rest
      else if length line > 3 \<and> is_digit (line ! 0) \<and> find_dot line 1 > 0
        then rich_block ''numbered_list_item'' (inline_spans (drop (nat (find_dot line 1) + 2) line))
             # decode_lines u rest
      else if length line > 2 \<and> take 2 line = ''> ''
        then rich_block ''quote'' (inline_spans (drop 2 line)) # decode_lines u rest
      else if starts_bar line
        then (if length (line # takeWhile starts_bar rest) < 2
                 \<or> dataRows (line # takeWhile starts_bar rest) = []
              then decode_lines u (dropWhile starts_bar rest)
              else table_of (dataRows (line # takeWhile starts_bar rest))
                   # decode_lines u (dropWhile starts_bar rest))
      else rich_block ''paragraph'' (inline_spans line) # decode_lines u rest)"
  (is "_ = ?rhs")
proof -
  have "MarkdownToBlocks_lines u (line # rest) = Some ?rhs"
    by (subst MarkdownToBlocks_lines.simps)
       (simp only: parseInlineMarkdown_Some parseMarkdownTable_eq MarkdownToBlocks_lines_Some
          Option.bind.simps if_Some case_if_table)
  then show ?thesis by (simp add: decode_lines_def)
qed


definition decode_step :: "(string \<Rightarrow> string) \<Rightarrow> string \<Rightarrow> string list \<Rightarrow> gmap option \<times> string list" where
  "decode_step u line rest =
     (if line = [] then (None, rest)
      else if is_child_page_marker line then (None, rest)
      else if length line > 2 \<and> line ! 0 = CHR ''#'' \<and> line ! 1 = CHR '' ''
        then (Some (rich_block ''heading_1'' (inline_spans (drop 2 line))), rest)
      else if length line > 3 \<and> take 3 line = ''## ''
        then (Some (rich_block ''heading_2'' (inline_spans (drop 3 line))), rest)
      else if length line > 4 \<and> take 4 line = ''### ''
        then (Some (rich_block ''heading_3'' (inline_spans (drop 4 line))), rest)
      else if line = ''---'' then (Some divider_block, rest)
      else if is_fence line
        then (Some (code_block (Join (takeWhile (\<lambda>l. \<not> is_fence l) rest) [NL])
                      (mapLanguageToNotion u (TrimSpace (drop 3 line)))),
              drop 1 (dropWhile (\<lambda>l. \<not> is_fence l) rest))
      else if length line > 5 \<and> (take 5 line = ''- [ ]'' \<or> take 5 line = ''- [x]'')
        then (Some (to_do_block (inline_spans (if length line > 6 then drop 6 line else []))
                      (line ! 3 = CHR ''x'')), rest)
      else if length line > 2 \<and> take 2 line = ''- ''
        then (Some (rich_block ''bulleted_list_item'' (inline_spans (drop 2 line))), rest)
      else if length line > 3 \<and> is_digit (line ! 0) \<and> find_dot line 1 > 0
        then (Some (rich_block ''numbered_list_item''
                      (inline_spans (drop (nat (find_dot line 1) + 2) line))), rest)
      else if length line > 2 \<and> take 2 line = ''> ''
        then (Some (rich_block ''quote'' (inline_spans (drop 2 line))), rest)
      else if starts_bar line
        then (if length (line # takeWhile starts_bar rest) < 2
                 \<or> dataRows (line # takeWhile starts_bar rest) = []
              then (None, dropWhile starts_bar rest)
              else (Some (table_of (dataRows (line # takeWhile starts_bar rest))),
                    dropWhile starts_bar rest))
      else (Some (rich_block ''paragraph'' (inline_spans line)), rest))"

definition emit :: "(string \<Rightarrow> string) \<Rightarrow> gmap option \<times> string list \<Rightarrow> gmap list" where
  "emit u st = (case fst st of None \<Rightarrow> decode_lines u (snd st)
                             | Some b \<Rightarrow> b # decode_lines u (snd st))"

lemma emit_simps:
  "emit u (None, r) = decode_lines u r"
  "emit u (Some b, r) = b # decode_lines u r"
  by (simp_all add: emit_def)

lemma decode_lines_step: "decode_lines u (line # rest) = emit u (decode_step u line rest)"
  unfolding decode_step_def decode_lines_Cons
  by (simp only: if_distrib[of "emit u"] emit_simps)

lemma if_intro: "(c \<Longrightarrow> Q x) \<Longrightarrow> (\<not> c \<Longrightarrow> Q y) \<Longrightarrow> Q (if c then x else y)"
  by simp

lemma decode_step_rest:
  "snd (decode_step u line rest)
     \<in> {rest, drop 1 (dropWhile (\<lambda>l. \<not> is_fence l) rest), dropWhile starts_bar rest}"
  unfolding decode_step_def
  by (intro if_intro[where Q = "\<lambda>st. snd st \<in> {rest, drop 1 (dropWhile (\<lambda>l. \<not> is_fence l) rest),
        dropWhile starts_bar rest}"]; simp)

lemma decode_step_shorter: "length (snd (decode_step u line rest)) \<le> length rest"
proof -
  have "length (drop 1 (dropWhile (\<lambda>l. \<not> is_fence l) rest)) \<le> length rest"
    using length_dropWhile_le[of "\<lambda>l. \<not> is_fence l" rest] by simp
  moreover have "length (dropWhile starts_bar rest) \<le> length rest"
    by (rule length_dropWhile_le)
  ultimately show ?thesis using decode_step_rest[of u line rest] by auto
qed

definition mapped_code :: "(string \<Rightarrow> string) \<Rightarrow> gmap \<Rightarrow> bool" where
  "mapped_code u b =
     (index b ''type'' = GString ''code''
        \<longrightarrow> (\<exists>content hint. b = code_block content (mapLanguageToNotion u (TrimSpace hint))))"

lemma block_types:
  "index (rich_block t rt) ''type'' = GString t"
  "index divider_block ''type'' = GString ''divider''"
  "index (code_block c l) ''type'' = GString ''code''"
  "index (to_do_block rt ch) ''type'' = GString ''to_do''"
  "index (table_of drs) ''type'' = GString ''table''"
  by (simp_all add: index_def rich_block_def divider_block_def code_block_def to_do_block_def
        table_of_def table_block_def)

lemma decode_step_code:
  "case fst (decode_step u line rest) of None \<Rightarrow> True | Some b \<Rightarrow> mapped_code u b"
  unfolding decode_step_def
  by (intro if_intro[where Q = "\<lambda>st. case fst st of None \<Rightarrow> True | Some b \<Rightarrow> mapped_code u b"];
      simp add: mapped_code_def block_types; blast)

lemma decode_lines_code: "b \<in> set (decode_lines u ls) \<Longrightarrow> mapped_code u b"
proof (induction "length ls" arbitrary: ls rule: less_induct)
  case less
  show ?case
  proof (cases ls)
    case Nil
    with less.prems show ?thesis by (simp add: decode_lines_Nil)
  next
    case (Cons line rest)
    obtain ob r where st: "decode_step u line rest = (ob, r)" by (cases "decode_step u line rest")
    have "length r < length ls" using decode_step_shorter[of u line rest] st Cons by simp
    then have ih: "b \<in> set (decode_lines u r) \<Longrightarrow> mapped_code u b" by (rule less.hyps)
    have hd: "case ob of None \<Rightarrow> True | Some b \<Rightarrow> mapped_code u b"
      using decode_step_code[of u line rest] st by simp
    from less.prems have "b \<in> set (emit u (ob, r))" by (simp add: Cons decode_lines_step st)
    with ih hd show ?thesis by (cases ob) (auto simp: emit_simps)
  qed
qed

section \<open>The language of a code block is always supported\<close>

lemma plain_name:
  assumes "s \<noteq> []" "list_all (\<lambda>c. 33 \<le> (of_char c :: nat) \<and> (of_char c :: nat) < 128
              \<and> \<not> (65 \<le> (of_char c :: nat) \<and> (of_char c :: nat) \<le> 90)) [hd s, last s]"
     "list_all (\<lambda>c. (of_char c :: nat) < 128 \<and> \<not> (65 \<le> (of_char c :: nat) \<and> (of_char c :: nat) \<le> 90)) s"
  shows "is_ascii s \<and> map ascii_lower (TrimSpace s) = s \<and> s \<noteq> []"
proof -
  have "leading_space s = 0"
    unfolding leading_space_0_iff using assms(1,2)
    by (cases s) (auto simp: space_runes_def HasPrefix_def)
  moreover have "trailing_space s = 0"
    unfolding trailing_space_0_iff using assms(1,2)
    by (cases s rule: rev_cases) (auto simp: space_runes_def HasSuffix_def)
  ultimately have t: "TrimSpace s = s" by (rule TrimSpace_id)
  have "c \<in> set s \<Longrightarrow> ascii_lower c = c" for c
  proof -
    assume "c \<in> set s"
    with assms(3) have "\<not> (65 \<le> (of_char c :: nat) \<and> (of_char c :: nat) \<le> 90)"
      by (auto simp: list_all_iff)
    then have notin: "c \<notin> set ''ABCDEFGHIJKLMNOPQRSTUVWXYZ''" by auto
    define U where "U = ''ABCDEFGHIJKLMNOPQRSTUVWXYZ''"
    define L where "L = ''abcdefghijklmnopqrstuvwxyz''"
    have "length U = length L" by (simp add: U_def L_def)
    then have "map fst (zip U L) = U" by simp
    then have "fst ` set (zip U L) = set U" by (metis set_map)
    with notin have "map_of (zip U L) c = None"
      unfolding U_def[symmetric] by (simp only: map_of_eq_None_iff not_False_eq_True)
    then show ?thesis unfolding ascii_lower_def U_def L_def by (simp only: option.case)
  qed
  then have "map ascii_lower s = s" by (induction s) auto
  with t assms show ?thesis by (auto simp: is_ascii_def list_all_iff)
qed


lemma mapLanguageToNotion_ascii:
  assumes "is_ascii h"
  shows "mapLanguageToNotion u h =
           (let l = map ascii_lower (TrimSpace h) in
            if l = [] then ''plain text''
            else (case map_of languageMap l of
                    Some mapped \<Rightarrow> mapped
                  | None \<Rightarrow> if l \<in> set knownLanguages then l else ''plain text''))"
proof -
  have "is_ascii (TrimSpace h)" using assms by (rule is_ascii_TrimSpace)
  then have "ToLower u (TrimSpace h) = map ascii_lower (TrimSpace h)" by (simp add: ToLower_def)
  then show ?thesis by (simp add: mapLanguageToNotion_def)
qed

lemma languageMap_distinct: "distinct (map fst languageMap)"
  by (simp add: languageMap_def)

lemma languageMap_lookup: "(k, v) \<in> set languageMap \<Longrightarrow> map_of languageMap k = Some v"
  using languageMap_distinct by (rule map_of_is_SomeI)

lemma languageMap_keys_plain:
  "(k, v) \<in> set languageMap \<Longrightarrow> is_ascii k \<and> map ascii_lower (TrimSpace k) = k \<and> k \<noteq> []"
  unfolding languageMap_def
  by (simp only: set_simps insert_iff empty_iff prod.inject) (elim disjE conjE; rule plain_name; simp)

lemma knownLanguages_plain:
  "k \<in> set knownLanguages \<Longrightarrow> is_ascii k \<and> map ascii_lower (TrimSpace k) = k \<and> k \<noteq> []"
  unfolding knownLanguages_def
  by (simp only: set_simps insert_iff empty_iff) (elim disjE; rule plain_name; simp)


lemma mapLanguageToNotion_alias:
  assumes "is_ascii h" "(map ascii_lower (TrimSpace h), v) \<in> set languageMap"
  shows "mapLanguageToNotion u h = v"
proof -
  from assms(2) have "map_of languageMap (map ascii_lower (TrimSpace h)) = Some v"
    by (rule languageMap_lookup)
  moreover from assms(2) have "map ascii_lower (TrimSpace h) \<noteq> []"
    using languageMap_keys_plain by blast
  ultimately show ?thesis using assms(1) by (simp add: mapLanguageToNotion_ascii)
qed

lemma mapLanguageToNotion_key:
  assumes "(k, v) \<in> set languageMap"
  shows "mapLanguageToNotion u k = v"
proof -
  from assms have p: "is_ascii k" "map ascii_lower (TrimSpace k) = k"
    using languageMap_keys_plain by blast+
  from p(2) assms have "(map ascii_lower (TrimSpace k), v) \<in> set languageMap" by simp
  with p(1) show ?thesis by (rule mapLanguageToNotion_alias)
qed

lemma mapLanguageToNotion_name:
  assumes "is_ascii h" "map ascii_lower (TrimSpace h) \<in> set knownLanguages"
    "map ascii_lower (TrimSpace h) \<notin> fst ` set languageMap"
  shows "mapLanguageToNotion u h = map ascii_lower (TrimSpace h)"
proof -
  from assms(3) have "map_of languageMap (map ascii_lower (TrimSpace h)) = None"
    by (simp add: map_of_eq_None_iff)
  moreover from assms(2) have "map ascii_lower (TrimSpace h) \<noteq> []"
    using knownLanguages_plain by blast
  ultimately show ?thesis using assms(1,2) by (simp add: mapLanguageToNotion_ascii)
qed

lemma code_block_entries:
  "index (code_block c l) ''type'' = GString ''code''"
  "index (code_block c l) ''code'' = GMap [(''rich_text'', GSliceMap [plain_span c]), (''language'', GString l)]"
  "index [(''rich_text'', GSliceMap [plain_span c]), (''language'', GString l)] ''language'' = GString l"
  by (simp_all add: code_block_def index_def)

lemma fence_block_language:
  assumes "is_fence line"
  shows "\<exists>b bs code. MarkdownToBlocks_lines u (line # rest) = Some (b # bs)
           \<and> index b ''type'' = GString ''code'' \<and> index b ''code'' = GMap code
           \<and> index code ''language'' = GString (mapLanguageToNotion u (TrimSpace (drop 3 line)))"
proof -
  have "MarkdownToBlocks_lines u (line # rest) =
          Some (code_block (Join (takeWhile (\<lambda>l. \<not> is_fence l) rest) [NL])
                  (mapLanguageToNotion u (TrimSpace (drop 3 line)))
                # decode_lines u (drop 1 (dropWhile (\<lambda>l. \<not> is_fence l) rest)))"
    using MarkdownToBlocks_lines_fence[OF assms, of u rest]
    by (simp add: MarkdownToBlocks_lines_Some)
  then show ?thesis using code_block_entries by blast
qed

lemma decoded_code_language:
  assumes "MarkdownToBlocks u markdown = Some blocks" "blk \<in> set blocks"
    "index blk ''type'' = GString ''code''"
  shows "\<exists>code l. index blk ''code'' = GMap code \<and> index code ''language'' = GString l
            \<and> l \<in> set knownLanguages"
proof -
  from assms(1) have "blocks = decode_lines u (splitLines markdown)"
    by (simp add: MarkdownToBlocks_Some)
  with assms(2) have "mapped_code u blk" by (simp add: decode_lines_code)
  with assms(3) obtain content hint where
    "blk = code_block content (mapLanguageToNotion u (TrimSpace hint))"
    by (auto simp: mapped_code_def)
  then show ?thesis using code_block_entries mapLanguageToNotion_known by blast
qed


text \<open>
  C10.  Whatever the hint, the language put into a code block is one of the names of
  \<open>knownLanguages\<close>.  The empty hint gives \<open>plain text\<close>, and so does every hint whose
  trimmed, lower-cased form is neither a key of \<open>languageMap\<close> nor a known language; the
  aliases \<open>js\<close>, \<open>py\<close> and \<open>bash\<close> give \<open>javascript\<close>, \<open>python\<close> and \<open>shell\<close>.  The
  result does not change when the hint is trimmed first, and two ASCII hints that differ
  only in the case of their letters give the same language.  A line that opens a code
  fence always yields a code block whose language is \<open>mapLanguageToNotion\<close> of the
  trimmed text after the fence.  Every key of \<open>languageMap\<close> gives the name the table
  holds for it, also when the hint is an ASCII text that becomes the key once it is
  trimmed and lower-cased; a hint that becomes a known language which is not a key gives
  that language.  The block of a fence holds the mapped language under \<open>code\<close>,
  \<open>language\<close>, and every block of type \<open>code\<close> that \<open>MarkdownToBlocks\<close> returns, for any
  text, holds there a name of \<open>knownLanguages\<close>; \<open>MarkdownToBlocks\<close> returns for every
  text.
\<close>

theorem C10_language_always_supported:
  "mapLanguageToNotion ulower lang \<in> set knownLanguages
   \<and> mapLanguageToNotion ulower [] = ''plain text''
   \<and> (ToLower ulower (TrimSpace lang) \<notin> fst ` set languageMap
        \<and> ToLower ulower (TrimSpace lang) \<notin> set knownLanguages
        \<longrightarrow> mapLanguageToNotion ulower lang = ''plain text'')
   \<and> mapLanguageToNotion ulower ''js'' = ''javascript''
   \<and> mapLanguageToNotion ulower ''py'' = ''python''
   \<and> mapLanguageToNotion ulower ''bash'' = ''shell''
   \<and> mapLanguageToNotion ulower (TrimSpace lang) = mapLanguageToNotion ulower lang
   \<and> (is_ascii a \<and> is_ascii b \<and> map ascii_lower a = map ascii_lower b
        \<longrightarrow> mapLanguageToNotion ulower a = mapLanguageToNotion ulower b)
   \<and> (is_fence line \<longrightarrow>
        MarkdownToBlocks_lines ulower (line # rest) =
          map_option
            ((#) (code_block (Join (takeWhile (\<lambda>l. \<not> is_fence l) rest) [NL])
                     (mapLanguageToNotion ulower (TrimSpace (drop 3 line)))))
            (MarkdownToBlocks_lines ulower (drop 1 (dropWhile (\<lambda>l. \<not> is_fence l) rest))))
   \<and> ((k, v) \<in> set languageMap \<longrightarrow> mapLanguageToNotion ulower k = v)
   \<and> (is_ascii h \<and> (map ascii_lower (TrimSpace h), w) \<in> set languageMap
        \<longrightarrow> mapLanguageToNotion ulower h = w)
   \<and> (is_ascii g \<and> map ascii_lower (TrimSpace g) \<in> set knownLanguages
        \<and> map ascii_lower (TrimSpace g) \<notin> fst ` set languageMap
        \<longrightarrow> mapLanguageToNotion ulower g = map ascii_lower (TrimSpace g))
   \<and> (is_fence line \<longrightarrow>
        (\<exists>blk blks code. MarkdownToBlocks_lines ulower (line # rest) = Some (blk # blks)
           \<and> index blk ''type'' = GString ''code'' \<and> index blk ''code'' = GMap code
           \<and> index code ''language''
                = GString (mapLanguageToNotion ulower (TrimSpace (drop 3 line)))))
   \<and> (MarkdownToBlocks ulower markdown = Some blocks \<and> cb \<in> set blocks
        \<and> index cb ''type'' = GString ''code''
        \<longrightarrow> (\<exists>code l. index cb ''code'' = GMap code \<and> index code ''language'' = GString l
               \<and> l \<in> set knownLanguages))
   \<and> (\<exists>bs. MarkdownToBlocks ulower markdown = Some bs)"
proof (intro conjI impI)
  show "mapLanguageToNotion ulower lang \<in> set knownLanguages"
    by (rule mapLanguageToNotion_known)
  show "mapLanguageToNotion ulower [] = ''plain text''"
    by (rule mapLanguageToNotion_empty)
  show "mapLanguageToNotion ulower lang = ''plain text''"
    if "ToLower ulower (TrimSpace lang) \<notin> fst ` set languageMap
        \<and> ToLower ulower (TrimSpace lang) \<notin> set knownLanguages"
    using that by (simp add: mapLanguageToNotion_unknown)
  show "mapLanguageToNotion ulower ''js'' = ''javascript''"
    "mapLanguageToNotion ulower ''py'' = ''python''"
    "mapLanguageToNotion ulower ''bash'' = ''shell''"
    by (rule mapLanguageToNotion_aliases)+
  show "mapLanguageToNotion ulower (TrimSpace lang) = mapLanguageToNotion ulower lang"
    by (rule mapLanguageToNotion_trim)
  show "mapLanguageToNotion ulower a = mapLanguageToNotion ulower b"
    if "is_ascii a \<and> is_ascii b \<and> map ascii_lower a = map ascii_lower b"
    using that by (simp add: mapLanguageToNotion_case)
  show "MarkdownToBlocks_lines ulower (line # rest) =
          map_option
            ((#) (code_block (Join (takeWhile (\<lambda>l. \<not> is_fence l) rest) [NL])
                     (mapLanguageToNotion ulower (TrimSpace (drop 3 line)))))
            (MarkdownToBlocks_lines ulower (drop 1 (dropWhile (\<lambda>l. \<not> is_fence l) rest)))"
    if "is_fence line"
    using that by (rule MarkdownToBlocks_lines_fence)
  show "mapLanguageToNotion ulower k = v" if "(k, v) \<in> set languageMap"
    using that by (rule mapLanguageToNotion_key)
  show "mapLanguageToNotion ulower h = w"
    if "is_ascii h \<and> (map ascii_lower (TrimSpace h), w) \<in> set languageMap"
    using that mapLanguageToNotion_alias by blast
  show "mapLanguageToNotion ulower g = map ascii_lower (TrimSpace g)"
    if "is_ascii g \<and> map ascii_lower (TrimSpace g) \<in> set knownLanguages
        \<and> map ascii_lower (TrimSpace g) \<notin> fst ` set languageMap"
    using that mapLanguageToNotion_name by blast
  show "\<exists>blk blks code. MarkdownToBlocks_lines ulower (line # rest) = Some (blk # blks)
           \<and> index blk ''type'' = GString ''code'' \<and> index blk ''code'' = GMap code
           \<and> index code ''language''
                = GString (mapLanguageToNotion ulower (TrimSpace (drop 3 line)))"
    if "is_fence line"
    using that by (rule fence_block_language)
  show "\<exists>code l. index cb ''code'' = GMap code \<and> index code ''language'' = GString l
               \<and> l \<in> set knownLanguages"
    if "MarkdownToBlocks ulower markdown = Some blocks \<and> cb \<in> set blocks
        \<and> index cb ''type'' = GString ''code''"
    using that decoded_code_language by blast
  show "\<exists>bs. MarkdownToBlocks ulower markdown = Some bs"
    by (simp add: MarkdownToBlocks_Some)
qed


theorem C10_language_witness:
  "mapLanguageToNotion (\<lambda>s. s) ''Klingon'' = ''plain text''
   \<and> mapLanguageToNotion (\<lambda>s. s) ''TS'' = mapLanguageToNotion (\<lambda>s. s) ''ts''
   \<and> MarkdownToBlocks_lines (\<lambda>s. s) [[BQ, BQ, BQ] @ ''Js'', ''x'', [BQ, BQ, BQ]] =
       Some [code_block ''x'' ''javascript'']
   \<and> mapLanguageToNotion (\<lambda>s. s) ''ts'' = ''typescript''
   \<and> mapLanguageToNotion (\<lambda>s. s) '' Py '' = ''python''
   \<and> mapLanguageToNotion (\<lambda>s. s) ''GO'' = ''go''
   \<and> (\<exists>blk blks code.
         MarkdownToBlocks_lines (\<lambda>s. s) [[BQ, BQ, BQ] @ ''Js'', ''x'', [BQ, BQ, BQ]] = Some (blk # blks)
         \<and> index blk ''type'' = GString ''code'' \<and> index blk ''code'' = GMap code
         \<and> index code ''language'' = GString ''javascript'')
   \<and> (\<exists>code l. index (code_block ''x'' ''javascript'') ''code'' = GMap code
         \<and> index code ''language'' = GString l \<and> l \<in> set knownLanguages)"
proof -
  note inst = C10_language_always_supported
    [where ulower = "\<lambda>s. s" and lang = "''Klingon''" and a = "''TS''" and b = "''ts''"
       and line = "[BQ, BQ, BQ] @ ''Js''" and rest = "[''x'', [BQ, BQ, BQ]]"
       and k = "''ts''" and v = "''typescript''" and h = "'' Py ''" and w = "''python''"
       and g = "''GO''" and markdown = "[BQ, BQ, BQ] @ ''Js'' @ [NL] @ ''x'' @ [NL] @ [BQ, BQ, BQ]"
       and blocks = "[code_block ''x'' ''javascript'']" and cb = "code_block ''x'' ''javascript''"]
  note c = conjunct1 conjunct2
  have h1: "ToLower (\<lambda>s. s) (TrimSpace ''Klingon'') \<notin> fst ` set languageMap
        \<and> ToLower (\<lambda>s. s) (TrimSpace ''Klingon'') \<notin> set knownLanguages"
    by (simp add: lang_eval)
  have h2: "is_ascii ''TS'' \<and> is_ascii ''ts'' \<and> map ascii_lower ''TS'' = map ascii_lower ''ts''"
    by (simp add: is_ascii_def ascii_lower_def)
  have h3: "is_fence ([BQ, BQ, BQ] @ ''Js'')" by (simp add: is_fence_def)
  have h4: "(''ts'', ''typescript'') \<in> set languageMap" by (simp add: languageMap_def)
  have h5: "is_ascii '' Py '' \<and> (map ascii_lower (TrimSpace '' Py ''), ''python'') \<in> set languageMap"
    by (simp add: is_ascii_def ascii_lower_def languageMap_def trim_eval)
  have h6: "is_ascii ''GO'' \<and> map ascii_lower (TrimSpace ''GO'') \<in> set knownLanguages
        \<and> map ascii_lower (TrimSpace ''GO'') \<notin> fst ` set languageMap"
    by (simp add: is_ascii_def ascii_lower_def languageMap_def knownLanguages_def trim_eval)
  have lines: "MarkdownToBlocks_lines (\<lambda>s. s) [[BQ, BQ, BQ] @ ''Js'', ''x'', [BQ, BQ, BQ]] =
       Some [code_block ''x'' ''javascript'']"
    using inst[THEN c(2), THEN c(2), THEN c(2), THEN c(2), THEN c(2), THEN c(2), THEN c(2), THEN c(2), THEN c(1), THEN mp, OF h3]
    by (simp add: is_fence_def MarkdownToBlocks_lines.simps lang_eval)
  have h7: "MarkdownToBlocks (\<lambda>s. s) ([BQ, BQ, BQ] @ ''Js'' @ [NL] @ ''x'' @ [NL] @ [BQ, BQ, BQ])
              = Some [code_block ''x'' ''javascript'']
        \<and> code_block ''x'' ''javascript'' \<in> set [code_block ''x'' ''javascript'']
        \<and> index (code_block ''x'' ''javascript'') ''type'' = GString ''code''"
    using lines by (simp add: MarkdownToBlocks_def splitLines_def code_block_def index_def)
  have c1: "mapLanguageToNotion (\<lambda>s. s) ''Klingon'' = ''plain text''"
    by (rule inst[THEN c(2), THEN c(2), THEN c(1), THEN mp, OF h1])
  have c2: "mapLanguageToNotion (\<lambda>s. s) ''TS'' = mapLanguageToNotion (\<lambda>s. s) ''ts''"
    by (rule inst[THEN c(2), THEN c(2), THEN c(2), THEN c(2), THEN c(2), THEN c(2), THEN c(2), THEN c(1), THEN mp, OF h2])
  have c4: "mapLanguageToNotion (\<lambda>s. s) ''ts'' = ''typescript''"
    by (rule inst[THEN c(2), THEN c(2), THEN c(2), THEN c(2), THEN c(2), THEN c(2), THEN c(2), THEN c(2), THEN c(2), THEN c(1), THEN mp, OF h4])
  have c5: "mapLanguageToNotion (\<lambda>s. s) '' Py '' = ''python''"
    by (rule inst[THEN c(2), THEN c(2), THEN c(2), THEN c(2), THEN c(2), THEN c(2), THEN c(2), THEN c(2), THEN c(2), THEN c(2), THEN c(1), THEN mp, OF h5])
  have c6: "mapLanguageToNotion (\<lambda>s. s) ''GO'' = ''go''"
    using inst[THEN c(2), THEN c(2), THEN c(2), THEN c(2), THEN c(2), THEN c(2), THEN c(2), THEN c(2), THEN c(2), THEN c(2), THEN c(2), THEN c(1), THEN mp, OF h6] by (simp add: ascii_lower_def trim_eval)
  have c7: "\<exists>blk blks code.
         MarkdownToBlocks_lines (\<lambda>s. s) [[BQ, BQ, BQ] @ ''Js'', ''x'', [BQ, BQ, BQ]] = Some (blk # blks)
         \<and> index blk ''type'' = GString ''code'' \<and> index blk ''code'' = GMap code
         \<and> index code ''language'' = GString ''javascript''"
    using inst[THEN c(2), THEN c(2), THEN c(2), THEN c(2), THEN c(2), THEN c(2), THEN c(2), THEN c(2), THEN c(2), THEN c(2), THEN c(2), THEN c(2), THEN c(1), THEN mp, OF h3] by (simp add: lang_eval)
  have c8: "\<exists>code l. index (code_block ''x'' ''javascript'') ''code'' = GMap code
         \<and> index code ''language'' = GString l \<and> l \<in> set knownLanguages"
    by (rule inst[THEN c(2), THEN c(2), THEN c(2), THEN c(2), THEN c(2), THEN c(2), THEN c(2), THEN c(2), THEN c(2), THEN c(2), THEN c(2), THEN c(2), THEN c(2), THEN c(1), THEN mp, OF h7])
  from c1 c2 lines c4 c5 c6 c7 c8 show ?thesis by (intro conjI)
qed

section \<open>DiffPage compares position by position\<close>

subsection \<open>The comparison of DiffPage\<close>

lemma Join_head: "Join ((a # p) # ps) sep = a # Join (p # ps) sep"
  by (cases ps) simp_all

lemma Join_empty_head: "Join ([] # p # ps) sep = sep @ Join (p # ps) sep"
  by simp

lemma Join_Split: "Join (Split s c) [c] = s"
proof (induction s)
  case Nil
  show ?case by simp
next
  case (Cons a s)
  obtain p ps where sp: "Split s c = p # ps"
    using Split_nonempty[of s c] by (cases "Split s c") auto
  from Cons sp have ih: "Join (p # ps) [c] = s" by simp
  show ?case
  proof (cases "a = c")
    case True
    then have "Split (a # s) c = [] # p # ps" by (simp add: sp)
    then show ?thesis using ih True by (simp only: Join_empty_head) simp
  next
    case False
    then have "Split (a # s) c = (a # p) # ps" by (simp add: sp)
    then show ?thesis using ih by (simp only: Join_head)
  qed
qed

lemma Split_inj: "Split s c = Split t c \<Longrightarrow> s = t"
  by (metis Join_Split)

lemma Join_snoc: "xs \<noteq> [] \<Longrightarrow> Join (xs @ [y]) sep = Join xs sep @ sep @ y"
proof (induction xs)
  case Nil
  then show ?case by simp
next
  case (Cons x xs)
  show ?case
  proof (cases xs)
    case Nil
    then show ?thesis by simp
  next
    case (Cons z zs)
    with Cons.IH have "Join (xs @ [y]) sep = Join xs sep @ sep @ y" by simp
    then show ?thesis unfolding Cons by simp
  qed
qed

lemma Split_last_empty:
  assumes "2 \<le> length (Split s c)" "last (Split s c) = []"
  shows "s \<noteq> [] \<and> last s = c"
proof -
  from assms(1) have ne: "Split s c \<noteq> []" by auto
  then obtain xs y where sp: "Split s c = xs @ [y]" by (cases "Split s c" rule: rev_cases) auto
  with assms have y: "y = []" and xs: "xs \<noteq> []" by auto
  have "s = Join (xs @ [y]) [c]" using Join_Split[of s c] sp by simp
  also have "\<dots> = Join xs [c] @ [c]" using xs y by (simp add: Join_snoc)
  finally show ?thesis by simp
qed

lemma trimmed_last: "trailing_space s = 0 \<Longrightarrow> s \<noteq> [] \<Longrightarrow> last s \<noteq> NL"
proof
  assume t: "trailing_space s = 0" and ne: "s \<noteq> []" and l: "last s = NL"
  have "[NL] \<in> set space_runes" by (simp add: space_runes_def)
  with t have "\<not> HasSuffix s [NL]" by (simp add: trailing_space_0_iff)
  moreover from ne l have "HasSuffix s [NL]"
    by (cases s rule: rev_cases) (auto simp: HasSuffix_def)
  ultimately show False by simp
qed

lemma trimmed_lines_last:
  assumes "2 \<le> length (Split (TrimSpace s) NL)"
  shows "last (Split (TrimSpace s) NL) \<noteq> []"
proof
  assume "last (Split (TrimSpace s) NL) = []"
  with assms have "TrimSpace s \<noteq> [] \<and> last (TrimSpace s) = NL" by (rule Split_last_empty)
  moreover have "trailing_space (TrimSpace s) = 0" by (rule TrimSpace_trailing)
  ultimately show False using trimmed_last[of "TrimSpace s"] by blast
qed

definition line_at :: "string list \<Rightarrow> nat \<Rightarrow> string" where
  "line_at ls i = (if i < length ls then ls ! i else [])"

lemma diff_step_flag:
  "snd (foldl (diff_step L N) (d, h) js) = (h \<or> (\<exists>i \<in> set js. line_at L i \<noteq> line_at N i))"
  by (induction js arbitrary: d h) (auto simp: diff_step_def line_at_def Let_def)

lemma diff_step_prefix: "\<exists>r. fst (foldl (diff_step L N) (d, h) js) = d @ r"
proof (induction js arbitrary: d h)
  case Nil
  show ?case by simp
next
  case (Cons j js)
  obtain d' h' where st: "diff_step L N (d, h) j = (d', h')" by (cases "diff_step L N (d, h) j")
  then obtain r0 where "d' = d @ r0" by (auto simp: diff_step_def Let_def split: if_splits)
  moreover obtain r where "fst (foldl (diff_step L N) (d', h') js) = d' @ r"
    using Cons.IH[of d' h'] by auto
  ultimately show ?case using st by simp
qed

lemma lines_equal:
  assumes L: "L = Split (TrimSpace l) NL" and N: "N = Split (TrimSpace n) NL"
    and same: "\<forall>i < max (length L) (length N). line_at L i = line_at N i"
  shows "L = N"
proof -
  have len: "length L = length N"
  proof (rule ccontr)
    assume neq: "length L \<noteq> length N"
    have Lne: "L \<noteq> []" and Nne: "N \<noteq> []" using L N Split_nonempty by auto
    show False
    proof (cases "length L < length N")
      case True
      with Lne have two: "2 \<le> length N" by (cases L) auto
      from True have "\<not> length N - 1 < length L" by arith
      then have "line_at L (length N - 1) = []" unfolding line_at_def by (rule if_not_P)
      moreover from same Nne have "line_at L (length N - 1) = line_at N (length N - 1)"
        by (cases N) (auto simp: max_def)
      moreover from Nne have "line_at N (length N - 1) = last N"
        by (simp add: line_at_def last_conv_nth)
      ultimately have "last N = []" by simp
      with two N trimmed_lines_last[of n] show False by simp
    next
      case False
      with neq have lt: "length N < length L" by simp
      with Nne have two: "2 \<le> length L" by (cases N) auto
      from lt have "\<not> length L - 1 < length N" by arith
      then have "line_at N (length L - 1) = []" unfolding line_at_def by (rule if_not_P)
      moreover from same Lne have "line_at L (length L - 1) = line_at N (length L - 1)"
        by (cases L) (auto simp: max_def)
      moreover from Lne have "line_at L (length L - 1) = last L"
        by (simp add: line_at_def last_conv_nth)
      ultimately have "last L = []" by simp
      with two L trimmed_lines_last[of l] show False by simp
    qed
  qed
  show ?thesis
  proof (rule nth_equalityI[OF len])
    fix i assume "i < length L"
    with same len show "L ! i = N ! i" by (auto simp: line_at_def)
  qed
qed

lemma diff_report_unchanged:
  "(diff_report f p l n = ''No changes detected.'') = (TrimSpace l = TrimSpace n)"
proof -
  define L where "L = Split (TrimSpace l) NL"
  define N where "N = Split (TrimSpace n) NL"
  define hd where "hd = ''Comparing '' @ f @ '' against Notion page '' @ p @ [NL, NL]"
  define m where "m = (if length N > length L then length N else length L)"
  define res where "res = foldl (diff_step L N) (hd, False) [0..<m]"
  have m: "m = max (length L) (length N)" by (simp add: m_def max_def)
  have rep: "diff_report f p l n = (if \<not> snd res then ''No changes detected.'' else fst res)"
    by (simp add: diff_report_def Let_def L_def N_def hd_def m_def res_def split: prod.split)
  have flag: "snd res = (\<exists>i < m. line_at L i \<noteq> line_at N i)"
    unfolding res_def by (auto simp: diff_step_flag)
  obtain r where fr: "fst res = hd @ r" unfolding res_def using diff_step_prefix by blast
  have differ: "fst res \<noteq> ''No changes detected.''"
    unfolding fr hd_def by simp
  show ?thesis
  proof
    assume "diff_report f p l n = ''No changes detected.''"
    with rep differ have "\<not> snd res" by (auto split: if_splits)
    with flag m have "\<forall>i < max (length L) (length N). line_at L i = line_at N i" by auto
    then have "L = N" by (rule lines_equal[OF L_def N_def])
    then show "TrimSpace l = TrimSpace n" unfolding L_def N_def by (rule Split_inj)
  next
    assume "TrimSpace l = TrimSpace n"
    then have "L = N" by (simp add: L_def N_def)
    with flag have "\<not> snd res" by simp
    with rep show "diff_report f p l n = ''No changes detected.''" by simp
  qed
qed

lemma diff_example:
  "diff_report f p (''A'' @ [NL] @ ''B'' @ [NL] @ ''C'') (''A'' @ [NL] @ ''X'' @ [NL] @ ''C'')
     = ''Comparing '' @ f @ '' against Notion page '' @ p @ [NL, NL] @ ''- X'' @ [NL] @ ''+ B'' @ [NL]"
  by (simp add: diff_report_def diff_step_def trim_eval upt_rec[of 0] upt_rec[of 1] upt_rec[of 2] numeral_3_eq_3)


text \<open>What the comparison writes for one position.\<close>

definition diff_entry :: "string \<Rightarrow> string \<Rightarrow> string" where
  "diff_entry local notion =
     (if local \<noteq> notion
      then (if notion \<noteq> [] then ''- '' @ notion @ [NL] else [])
           @ (if local \<noteq> [] then ''+ '' @ local @ [NL] else [])
      else [])"

lemma diff_step_text:
  "fst (foldl (diff_step L N) (d, h) js)
     = d @ concat (map (\<lambda>i. diff_entry (line_at L i) (line_at N i)) js)"
  by (induction js arbitrary: d h) (simp_all add: diff_step_def diff_entry_def line_at_def Let_def)

lemma diff_report_changed:
  assumes "TrimSpace l \<noteq> TrimSpace n"
  shows "diff_report f p l n =
           ''Comparing '' @ f @ '' against Notion page '' @ p @ [NL, NL]
           @ concat (map (\<lambda>i. diff_entry (line_at (Split (TrimSpace l) NL) i)
                                         (line_at (Split (TrimSpace n) NL) i))
                       [0..<max (length (Split (TrimSpace l) NL)) (length (Split (TrimSpace n) NL))])"
proof -
  define L where "L = Split (TrimSpace l) NL"
  define N where "N = Split (TrimSpace n) NL"
  define hd where "hd = ''Comparing '' @ f @ '' against Notion page '' @ p @ [NL, NL]"
  define m where "m = (if length N > length L then length N else length L)"
  define res where "res = foldl (diff_step L N) (hd, False) [0..<m]"
  have m: "m = max (length L) (length N)" by (simp add: m_def max_def)
  have rep: "diff_report f p l n = (if \<not> snd res then ''No changes detected.'' else fst res)"
    by (simp add: diff_report_def Let_def L_def N_def hd_def m_def res_def split: prod.split)
  from assms have "diff_report f p l n \<noteq> ''No changes detected.''"
    by (simp add: diff_report_unchanged)
  with rep have "diff_report f p l n = fst res" by (auto split: if_splits)
  then show ?thesis unfolding res_def diff_step_text m L_def N_def hd_def by simp
qed

lemma DiffPage_with_report:
  assumes "readFile w filePath = Inr content" "parse content = (pageID, localMarkdown)"
    "pageID \<noteq> []" "allBlocks w log pageID = Inr blocks"
  shows "DiffPage_with parse w filePath log =
           (Success (diff_report filePath pageID localMarkdown (BlocksToMarkdown blocks)),
            log @ [FetchAllBlocks pageID])"
  using assms by (simp add: DiffPage_with_def fetchAllBlocks_def)


text \<open>A world for examples: every file holds \<open>content\<close>, every page holds \<open>blocks\<close> and
  has no comments, and no call fails.\<close>

definition quiet_world :: "string \<Rightarrow> gmap list \<Rightarrow> world" where
  "quiet_world content blocks =
     \<lparr>readFile = (\<lambda>path. Inr content), now = ''2024-01-01T00:00:00Z'',
      joinPath = (\<lambda>dir name. dir @ ''/'' @ name),
      pageTitle = (\<lambda>log pageID. Inr ''Title''),
      allBlocks = (\<lambda>log pageID. Inr blocks),
      pageComments = (\<lambda>log pageID. []),
      failure = (\<lambda>log c. None),
      toLower = (\<lambda>s. s)\<rparr>"

definition index_shift :: "int \<Rightarrow> int" where
  "index_shift r = (if r < 0 then - 1 else r + 1)"

lemma Index_eval:
  "Index [] sep = (if sep = [] then 0 else - 1)"
  "Index (c # cs) sep = (if HasPrefix (c # cs) sep then 0 else index_shift (Index cs sep))"
  by (simp_all add: index_shift_def Let_def)

lemma LastIndex_eval:
  "LastIndex [] sep = (if sep = [] then 0 else - 1)"
  "LastIndex (c # cs) sep =
     (if 0 \<le> LastIndex cs sep then LastIndex cs sep + 1
      else if HasPrefix (c # cs) sep then 0 else - 1)"
  by (simp_all add: Let_def)

lemmas frontmatter_eval =
  parseFrontmatter_def parseFrontmatter_r1_def parseFrontmatterFull_def frontmatter_step_def
  Index_eval index_shift_def HasPrefix_def TrimPrefix_def Let_def trim_eval

text \<open>
  C3.  \<open>DiffPage\<close> compares the two trimmed texts line by line, position by position.  For
  the local text \<open>A\<close>, \<open>B\<close>, \<open>C\<close> and the remote text \<open>A\<close>, \<open>X\<close>, \<open>C\<close> the report is the header
  followed by the line \<open>- X\<close> and then the line \<open>+ B\<close>.  The report is the sentence
  \<open>No changes detected.\<close> exactly when the two texts are equal after \<open>TrimSpace\<close>.  When
  they differ, the report is the header followed, for every position up to the longer
  text, by nothing when the two lines there are equal and otherwise by the remote line
  after \<open>- \<close> (unless it is empty) and the local line after \<open>+ \<close> (unless it is empty); a
  position past the end of a text counts as an empty line.  \<open>DiffPage\<close>, in both
  revisions, returns this report for the markdown of the file and the encoding of the
  fetched blocks, after one call that fetches the blocks.
\<close>

theorem C3_diff_positional:
  "diff_report f p (''A'' @ [NL] @ ''B'' @ [NL] @ ''C'') (''A'' @ [NL] @ ''X'' @ [NL] @ ''C'')
     = ''Comparing '' @ f @ '' against Notion page '' @ p @ [NL, NL] @ ''- X'' @ [NL] @ ''+ B'' @ [NL]
   \<and> ((diff_report f p l n = ''No changes detected.'') = (TrimSpace l = TrimSpace n))
   \<and> (TrimSpace l \<noteq> TrimSpace n \<longrightarrow>
        diff_report f p l n =
          ''Comparing '' @ f @ '' against Notion page '' @ p @ [NL, NL]
          @ concat (map (\<lambda>i. diff_entry (line_at (Split (TrimSpace l) NL) i)
                                        (line_at (Split (TrimSpace n) NL) i))
                      [0..<max (length (Split (TrimSpace l) NL))
                               (length (Split (TrimSpace n) NL))]))
   \<and> (readFile w filePath = Inr content \<and> parseFrontmatter content = (pageID, localMarkdown)
        \<and> pageID \<noteq> [] \<and> allBlocks w log pageID = Inr blocks \<longrightarrow>
        DiffPage w filePath log =
          (Success (diff_report filePath pageID localMarkdown (BlocksToMarkdown blocks)),
           log @ [FetchAllBlocks pageID]))
   \<and> (readFile w filePath = Inr content \<and> parseFrontmatter_r1 content = (pid, lmd)
        \<and> pid \<noteq> [] \<and> allBlocks w log pid = Inr rbs \<longrightarrow>
        DiffPage_r1 w filePath log =
          (Success (diff_report filePath pid lmd (BlocksToMarkdown rbs)),
           log @ [FetchAllBlocks pid]))"
proof (intro conjI impI)
  show "diff_report f p (''A'' @ [NL] @ ''B'' @ [NL] @ ''C'') (''A'' @ [NL] @ ''X'' @ [NL] @ ''C'')
     = ''Comparing '' @ f @ '' against Notion page '' @ p @ [NL, NL] @ ''- X'' @ [NL] @ ''+ B'' @ [NL]"
    by (rule diff_example)
  show "(diff_report f p l n = ''No changes detected.'') = (TrimSpace l = TrimSpace n)"
    by (rule diff_report_unchanged)
  show "diff_report f p l n =
          ''Comparing '' @ f @ '' against Notion page '' @ p @ [NL, NL]
          @ concat (map (\<lambda>i. diff_entry (line_at (Split (TrimSpace l) NL) i)
                                        (line_at (Split (TrimSpace n) NL) i))
                      [0..<max (length (Split (TrimSpace l) NL))
                               (length (Split (TrimSpace n) NL))])"
    if "TrimSpace l \<noteq> TrimSpace n"
    using that by (rule diff_report_changed)
  show "DiffPage w filePath log =
          (Success (diff_report filePath pageID localMarkdown (BlocksToMarkdown blocks)),
           log @ [FetchAllBlocks pageID])"
    if "readFile w filePath = Inr content \<and> parseFrontmatter content = (pageID, localMarkdown)
        \<and> pageID \<noteq> [] \<and> allBlocks w log pageID = Inr blocks"
    using that unfolding DiffPage_def by (intro DiffPage_with_report) auto
  show "DiffPage_r1 w filePath log =
          (Success (diff_report filePath pid lmd (BlocksToMarkdown rbs)),
           log @ [FetchAllBlocks pid])"
    if "readFile w filePath = Inr content \<and> parseFrontmatter_r1 content = (pid, lmd)
        \<and> pid \<noteq> [] \<and> allBlocks w log pid = Inr rbs"
    using that unfolding DiffPage_r1_def by (intro DiffPage_with_report) auto
qed

theorem C3_diff_witness:
  "diff_report ''f.md'' ''p1'' (''A'' @ [NL] @ ''C'') '' X''
     = ''Comparing f.md against Notion page p1'' @ [NL, NL] @ ''- X'' @ [NL] @ ''+ A'' @ [NL]
       @ ''+ C'' @ [NL]
   \<and> DiffPage (quiet_world (''---'' @ [NL] @ ''notion_id: p1'' @ [NL] @ ''---'' @ [NL] @ ''A'') [])
        ''f.md'' []
       = (Success (''Comparing f.md against Notion page p1'' @ [NL, NL] @ ''+ A'' @ [NL]),
          [FetchAllBlocks ''p1''])
   \<and> DiffPage_r1 (quiet_world (''---'' @ [NL] @ ''notion_id: p1'' @ [NL] @ ''---'' @ [NL] @ ''A'') [])
        ''f.md'' []
       = (Success (''Comparing f.md against Notion page p1'' @ [NL, NL] @ ''+ A'' @ [NL]),
          [FetchAllBlocks ''p1''])"
proof -
  note c = conjunct1 conjunct2
  note inst = C3_diff_positional
    [where f = "''f.md''" and p = "''p1''" and l = "''A'' @ [NL] @ ''C''" and n = "'' X''"
       and w = "quiet_world (''---'' @ [NL] @ ''notion_id: p1'' @ [NL] @ ''---'' @ [NL] @ ''A'') []"
       and filePath = "''f.md''" and log = "[]"
       and content = "''---'' @ [NL] @ ''notion_id: p1'' @ [NL] @ ''---'' @ [NL] @ ''A''"
       and pageID = "''p1''" and localMarkdown = "''A''" and blocks = "[]"
       and pid = "''p1''" and lmd = "''A''" and rbs = "[]"]
  have h1: "TrimSpace (''A'' @ [NL] @ ''C'') \<noteq> TrimSpace '' X''" by (simp add: trim_eval)
  have h2: "readFile (quiet_world (''---'' @ [NL] @ ''notion_id: p1'' @ [NL] @ ''---'' @ [NL] @ ''A'') []) ''f.md''
              = Inr (''---'' @ [NL] @ ''notion_id: p1'' @ [NL] @ ''---'' @ [NL] @ ''A'')
        \<and> parseFrontmatter (''---'' @ [NL] @ ''notion_id: p1'' @ [NL] @ ''---'' @ [NL] @ ''A'') = (''p1'', ''A'')
        \<and> ''p1'' \<noteq> []
        \<and> allBlocks (quiet_world (''---'' @ [NL] @ ''notion_id: p1'' @ [NL] @ ''---'' @ [NL] @ ''A'') []) [] ''p1'' = Inr []"
    by (simp add: quiet_world_def frontmatter_eval del: Index.simps)
  have h3: "readFile (quiet_world (''---'' @ [NL] @ ''notion_id: p1'' @ [NL] @ ''---'' @ [NL] @ ''A'') []) ''f.md''
              = Inr (''---'' @ [NL] @ ''notion_id: p1'' @ [NL] @ ''---'' @ [NL] @ ''A'')
        \<and> parseFrontmatter_r1 (''---'' @ [NL] @ ''notion_id: p1'' @ [NL] @ ''---'' @ [NL] @ ''A'') = (''p1'', ''A'')
        \<and> ''p1'' \<noteq> []
        \<and> allBlocks (quiet_world (''---'' @ [NL] @ ''notion_id: p1'' @ [NL] @ ''---'' @ [NL] @ ''A'') []) [] ''p1'' = Inr []"
    by (simp add: quiet_world_def frontmatter_eval del: Index.simps)
  have rep: "diff_report ''f.md'' ''p1'' ''A'' (BlocksToMarkdown [])
               = ''Comparing f.md against Notion page p1'' @ [NL, NL] @ ''+ A'' @ [NL]"
    by (simp add: diff_report_def diff_step_def trim_eval BlocksToMarkdown_def
          BlocksToMarkdownWithChildPages_def)
  have a: "diff_report ''f.md'' ''p1'' (''A'' @ [NL] @ ''C'') '' X''
     = ''Comparing f.md against Notion page p1'' @ [NL, NL] @ ''- X'' @ [NL] @ ''+ A'' @ [NL]
       @ ''+ C'' @ [NL]"
    using inst[THEN c(2), THEN c(2), THEN c(1), THEN mp, OF h1]
    by (simp add: trim_eval diff_entry_def line_at_def upt_rec[of 0] upt_rec[of 1])
  have b: "DiffPage (quiet_world (''---'' @ [NL] @ ''notion_id: p1'' @ [NL] @ ''---'' @ [NL] @ ''A'') [])
        ''f.md'' []
       = (Success (''Comparing f.md against Notion page p1'' @ [NL, NL] @ ''+ A'' @ [NL]),
          [FetchAllBlocks ''p1''])"
    using inst[THEN c(2), THEN c(2), THEN c(2), THEN c(1), THEN mp, OF h2] rep by simp
  have d: "DiffPage_r1 (quiet_world (''---'' @ [NL] @ ''notion_id: p1'' @ [NL] @ ''---'' @ [NL] @ ''A'') [])
        ''f.md'' []
       = (Success (''Comparing f.md against Notion page p1'' @ [NL, NL] @ ''+ A'' @ [NL]),
          [FetchAllBlocks ''p1''])"
    using inst[THEN c(2), THEN c(2), THEN c(2), THEN c(2), THEN mp, OF h3] rep by simp
  from a b d show ?thesis by (intro conjI)
qed

section \<open>A missing page id ends push and diff\<close>

lemma first_notion_id_none:
  "\<forall>line \<in> set ls. \<not> HasPrefix line ''notion_id:'' \<Longrightarrow> first_notion_id ls = []"
  by (induction ls) simp_all

lemma frontmatter_step_keeps:
  "\<not> HasPrefix l ''notion_id:'' \<Longrightarrow> fst (frontmatter_step (pageID, cps, inCP) l) = pageID"
  by (simp add: frontmatter_step_def Let_def)

lemma frontmatter_step_none:
  "\<forall>line \<in> set ls. \<not> HasPrefix line ''notion_id:''
     \<Longrightarrow> fst (foldl frontmatter_step (pageID, cps, inCP) ls) = pageID"
proof (induction ls arbitrary: cps inCP)
  case Nil
  show ?case by simp
next
  case (Cons l ls)
  obtain p' cps' inCP' where st: "frontmatter_step (pageID, cps, inCP) l = (p', cps', inCP')"
    by (cases "frontmatter_step (pageID, cps, inCP) l")
  moreover have "p' = pageID" using frontmatter_step_keeps[of l pageID cps inCP] Cons.prems st by simp
  ultimately show ?case using Cons by simp
qed

lemma PushPage_no_id:
  assumes "readFile w filePath = Inr content" "fst (parseFrontmatter content) = []"
  shows "PushPage w filePath log = (Failure ''no notion_id found in frontmatter'', log)"
  using assms by (cases "parseFrontmatter content") (simp add: PushPage_def)

lemma PushPage_r1_no_id:
  assumes "readFile w filePath = Inr content" "fst (parseFrontmatterFull content) = []"
  shows "PushPage_r1 w filePath log = (Failure ''no notion_id found in frontmatter'', log)"
  using assms by (cases "parseFrontmatterFull content") (simp add: PushPage_r1_def)

lemma DiffPage_with_no_id:
  assumes "readFile w filePath = Inr content" "fst (parse content) = []"
  shows "DiffPage_with parse w filePath log = (Failure ''no notion_id found in frontmatter'', log)"
  using assms by (cases "parse content") (simp add: DiffPage_with_def)

lemma parseFrontmatter_r1_fst: "fst (parseFrontmatter_r1 content) = fst (parseFrontmatterFull content)"
  by (simp add: parseFrontmatter_r1_def split: prod.split)

lemma parseFrontmatter_no_header:
  "\<not> HasPrefix content (''---'' @ [NL]) \<Longrightarrow> parseFrontmatter content = ([], content)"
  "\<not> HasPrefix content (''---'' @ [NL]) \<Longrightarrow> parseFrontmatterFull content = ([], [], content)"
  by (simp_all add: parseFrontmatter_def parseFrontmatterFull_def)

lemma parseFrontmatter_unterminated:
  "Index (drop 4 content) (NL # ''---'' @ [NL]) = - 1 \<Longrightarrow> parseFrontmatter content = ([], content)"
  "Index (drop 4 content) (NL # ''---'' @ [NL]) = - 1 \<Longrightarrow> parseFrontmatterFull content = ([], [], content)"
  by (simp_all add: parseFrontmatter_def parseFrontmatterFull_def)

lemma parseFrontmatter_no_key:
  assumes "\<forall>line \<in> set (Split (take (nat (Index (drop 4 content) (NL # ''---'' @ [NL]))) (drop 4 content)) NL).
             \<not> HasPrefix line ''notion_id:''"
  shows "fst (parseFrontmatter content) = []" "fst (parseFrontmatterFull content) = []"
proof -
  show "fst (parseFrontmatter content) = []"
    using first_notion_id_none[OF assms] by (simp add: parseFrontmatter_def Let_def)
  show "fst (parseFrontmatterFull content) = []"
    using frontmatter_step_none[OF assms, of "[]" "[]" False]
    by (auto simp: parseFrontmatterFull_def Let_def split: prod.split)
qed


text \<open>
  C8.  When the frontmatter of the file's content yields the empty page id, \<open>PushPage\<close>
  and \<open>DiffPage\<close>, in both revisions, return the error \<open>no notion_id found in
  frontmatter\<close> and leave the trace of calls as it was: no call is made, so nothing is
  changed on the service, nothing is tried again and no other id is used.  The page id
  is empty when the content does not start with the line \<open>---\<close>, when no line \<open>---\<close> closes
  the header, and when no line of the header starts with \<open>notion_id:\<close>.
\<close>

theorem C8_missing_id_is_terminal:
  "(readFile w filePath = Inr content \<and> fst (parseFrontmatter content) = [] \<longrightarrow>
      PushPage w filePath log = (Failure ''no notion_id found in frontmatter'', log)
      \<and> DiffPage w filePath log = (Failure ''no notion_id found in frontmatter'', log))
   \<and> (readFile w filePath = Inr content \<and> fst (parseFrontmatterFull content) = [] \<longrightarrow>
      PushPage_r1 w filePath log = (Failure ''no notion_id found in frontmatter'', log)
      \<and> DiffPage_r1 w filePath log = (Failure ''no notion_id found in frontmatter'', log))
   \<and> (\<not> HasPrefix content (''---'' @ [NL]) \<longrightarrow>
      parseFrontmatter content = ([], content) \<and> parseFrontmatterFull content = ([], [], content))
   \<and> (Index (drop 4 content) (NL # ''---'' @ [NL]) = - 1 \<longrightarrow>
      parseFrontmatter content = ([], content) \<and> parseFrontmatterFull content = ([], [], content))
   \<and> ((\<forall>line \<in> set (Split (take (nat (Index (drop 4 content) (NL # ''---'' @ [NL])))
                                 (drop 4 content)) NL).
          \<not> HasPrefix line ''notion_id:'') \<longrightarrow>
      fst (parseFrontmatter content) = [] \<and> fst (parseFrontmatterFull content) = [])"
proof (intro conjI impI)
  assume a: "readFile w filePath = Inr content \<and> fst (parseFrontmatter content) = []"
  then show "PushPage w filePath log = (Failure ''no notion_id found in frontmatter'', log)"
    by (simp add: PushPage_no_id)
  from a show "DiffPage w filePath log = (Failure ''no notion_id found in frontmatter'', log)"
    unfolding DiffPage_def by (simp add: DiffPage_with_no_id)
next
  assume a: "readFile w filePath = Inr content \<and> fst (parseFrontmatterFull content) = []"
  then show "PushPage_r1 w filePath log = (Failure ''no notion_id found in frontmatter'', log)"
    by (simp add: PushPage_r1_no_id)
  from a show "DiffPage_r1 w filePath log = (Failure ''no notion_id found in frontmatter'', log)"
    unfolding DiffPage_r1_def by (simp add: DiffPage_with_no_id parseFrontmatter_r1_fst)
next
  assume "\<not> HasPrefix content (''---'' @ [NL])"
  then show "parseFrontmatter content = ([], content)"
    "parseFrontmatterFull content = ([], [], content)"
    by (rule parseFrontmatter_no_header)+
next
  assume "Index (drop 4 content) (NL # ''---'' @ [NL]) = - 1"
  then show "parseFrontmatter content = ([], content)"
    "parseFrontmatterFull content = ([], [], content)"
    by (rule parseFrontmatter_unterminated)+
next
  assume "\<forall>line \<in> set (Split (take (nat (Index (drop 4 content) (NL # ''---'' @ [NL])))
                                 (drop 4 content)) NL).
          \<not> HasPrefix line ''notion_id:''"
  then show "fst (parseFrontmatter content) = []" "fst (parseFrontmatterFull content) = []"
    by (rule parseFrontmatter_no_key)+
qed

theorem C8_missing_id_witness:
  "PushPage (quiet_world (''---'' @ [NL] @ ''title: x'' @ [NL] @ ''---'' @ [NL] @ ''body'') []) ''f.md'' []
     = (Failure ''no notion_id found in frontmatter'', [])
   \<and> DiffPage (quiet_world (''---'' @ [NL] @ ''title: x'' @ [NL] @ ''---'' @ [NL] @ ''body'') []) ''f.md'' []
     = (Failure ''no notion_id found in frontmatter'', [])
   \<and> PushPage_r1 (quiet_world (''---'' @ [NL] @ ''title: x'' @ [NL] @ ''---'' @ [NL] @ ''body'') []) ''f.md'' []
     = (Failure ''no notion_id found in frontmatter'', [])
   \<and> DiffPage_r1 (quiet_world (''---'' @ [NL] @ ''title: x'' @ [NL] @ ''---'' @ [NL] @ ''body'') []) ''f.md'' []
     = (Failure ''no notion_id found in frontmatter'', [])
   \<and> parseFrontmatter ''body'' = ([], ''body'')
   \<and> parseFrontmatter (''---'' @ [NL] @ ''notion_id: p1'') = ([], ''---'' @ [NL] @ ''notion_id: p1'')"
proof -
  note c = conjunct1 conjunct2
  note inst = C8_missing_id_is_terminal
    [where w = "quiet_world (''---'' @ [NL] @ ''title: x'' @ [NL] @ ''---'' @ [NL] @ ''body'') []"
       and filePath = "''f.md''" and log = "[]"
       and content = "''---'' @ [NL] @ ''title: x'' @ [NL] @ ''---'' @ [NL] @ ''body''"]
  have key: "\<forall>line \<in> set (Split (take (nat (Index (drop 4 (''---'' @ [NL] @ ''title: x'' @ [NL] @ ''---'' @ [NL] @ ''body''))
                   (NL # ''---'' @ [NL])))
                (drop 4 (''---'' @ [NL] @ ''title: x'' @ [NL] @ ''---'' @ [NL] @ ''body''))) NL).
          \<not> HasPrefix line ''notion_id:''"
    by (simp add: Index_eval index_shift_def HasPrefix_def del: Index.simps(2))
  note none = inst[THEN c(2), THEN c(2), THEN c(2), THEN c(2), THEN mp, OF key]
  have rf: "readFile (quiet_world (''---'' @ [NL] @ ''title: x'' @ [NL] @ ''---'' @ [NL] @ ''body'') []) ''f.md''
              = Inr (''---'' @ [NL] @ ''title: x'' @ [NL] @ ''---'' @ [NL] @ ''body'')"
    by (simp add: quiet_world_def)
  from rf none have h1: "readFile (quiet_world (''---'' @ [NL] @ ''title: x'' @ [NL] @ ''---'' @ [NL] @ ''body'') []) ''f.md''
              = Inr (''---'' @ [NL] @ ''title: x'' @ [NL] @ ''---'' @ [NL] @ ''body'')
        \<and> fst (parseFrontmatter (''---'' @ [NL] @ ''title: x'' @ [NL] @ ''---'' @ [NL] @ ''body'')) = []"
    by (intro conjI) (rule rf, rule none[THEN c(1)])
  from rf none have h2: "readFile (quiet_world (''---'' @ [NL] @ ''title: x'' @ [NL] @ ''---'' @ [NL] @ ''body'') []) ''f.md''
              = Inr (''---'' @ [NL] @ ''title: x'' @ [NL] @ ''---'' @ [NL] @ ''body'')
        \<and> fst (parseFrontmatterFull (''---'' @ [NL] @ ''title: x'' @ [NL] @ ''---'' @ [NL] @ ''body'')) = []"
    by (intro conjI) (rule rf, rule none[THEN c(2)])
  note r1 = inst[THEN c(1), THEN mp, OF h1]
  note r2 = inst[THEN c(2), THEN c(1), THEN mp, OF h2]
  have h3: "\<not> HasPrefix ''body'' (''---'' @ [NL])" by (simp add: HasPrefix_def)
  have h4: "Index (drop 4 (''---'' @ [NL] @ ''notion_id: p1'')) (NL # ''---'' @ [NL]) = - 1"
    by (simp add: Index_eval index_shift_def HasPrefix_def del: Index.simps(2))
  note r3 = C8_missing_id_is_terminal[where content = "''body''",
      THEN c(2), THEN c(2), THEN c(1), THEN mp, OF h3, THEN c(1)]
  note r4 = C8_missing_id_is_terminal[where content = "''---'' @ [NL] @ ''notion_id: p1''",
      THEN c(2), THEN c(2), THEN c(2), THEN c(1), THEN mp, OF h4, THEN c(1)]
  from r1 r2 r3 r4 show ?thesis by (intro conjI) simp_all
qed

end
